theory Spec2Isabelle
  imports Main "HOL-Library.Word"
begin

section \<open>The eventshub sender: data model\<close>

text \<open>
  The development embeds \<^verbatim>\<open>sender.go\<close> (package \<^verbatim>\<open>sender\<close> of the eventshub test image).
  Go's \<^verbatim>\<open>int\<close> is the 64-bit signed integer of the platforms the image is built for: a
  \<open>64 word\<close>, read with \<open>sint\<close> and compared with \<open><s\<close>; \<^verbatim>\<open>uint64(x)\<close> is then the same
  word read with \<open>unat\<close>. A \<^verbatim>\<open>time.Duration\<close> is an \<^verbatim>\<open>int64\<close> of nanoseconds. Strings and
  byte slices are \<open>string\<close>. A value of type \<^verbatim>\<open>error\<close> is its message, \<open>None\<close> for \<^verbatim>\<open>nil\<close>.
\<close>

type_synonym go_int = "64 word"
type_synonym duration = "64 word"
type_synonym time = int
type_synonym bytes = string
type_synonym header = "string \<rightharpoonup> string list"

definition Second :: duration where
  "Second = 1000000000"

subsection \<open>Events and the store they live in\<close>

text \<open>
  Modelled from the spec: the type \<^verbatim>\<open>cloudevents.Event\<close> and its methods \<^verbatim>\<open>Clone\<close>, \<^verbatim>\<open>ID\<close>,
  \<^verbatim>\<open>SetExtension\<close>, \<^verbatim>\<open>SetID\<close> and \<^verbatim>\<open>SetTime\<close> belong to the CloudEvents SDK, a library
  the sender package imports. The spec describes an event as a structured message with an
  identifier, a timestamp, a type, a set of extension attributes (key to value) and a body,
  and the three setters as overwriting the attribute they name.
\<close>

datatype ext_value = ExtInt int | ExtString string

record event =
  ev_id :: string
  ev_source :: string
  ev_type :: string
  ev_time :: "time option"
  ev_extensions :: "string \<rightharpoonup> ext_value"
  ev_data :: bytes

definition zero_event :: event where
  "zero_event = \<lparr>ev_id = [], ev_source = [], ev_type = [], ev_time = None,
     ev_extensions = Map.empty, ev_data = []\<rparr>"

text \<open>
  The sender works on events through pointers (\<^verbatim>\<open>*cloudevents.Event\<close>): the template and its
  per-iteration copy are distinct objects, and the setters write through the pointer they are
  called on. The store maps addresses to events; memory beyond \<open>top\<close> is zeroed and not yet
  handed out.
\<close>

type_synonym addr = nat

record store =
  cells :: "addr \<Rightarrow> event"
  top :: addr

definition empty_store :: store where
  "empty_store = \<lparr>cells = (\<lambda>_. zero_event), top = 0\<rparr>"

definition new_event :: "store \<Rightarrow> event \<Rightarrow> addr \<times> store" where
  "new_event h e = (top h, h\<lparr>cells := (cells h)(top h := e), top := Suc (top h)\<rparr>)"

definition Clone :: "store \<Rightarrow> addr \<Rightarrow> addr \<times> store" where
  "Clone h p = new_event h (cells h p)"

definition ID :: "store \<Rightarrow> addr \<Rightarrow> string" where
  "ID h p = ev_id (cells h p)"

definition SetExtension :: "store \<Rightarrow> addr \<Rightarrow> string \<Rightarrow> ext_value \<Rightarrow> store" where
  "SetExtension h p name v =
     h\<lparr>cells := (cells h)(p := (cells h p)\<lparr>ev_extensions := (ev_extensions (cells h p))(name \<mapsto> v)\<rparr>)\<rparr>"

definition SetID :: "store \<Rightarrow> addr \<Rightarrow> string \<Rightarrow> store" where
  "SetID h p s = h\<lparr>cells := (cells h)(p := (cells h p)\<lparr>ev_id := s\<rparr>)\<rparr>"

definition SetTime :: "store \<Rightarrow> addr \<Rightarrow> time \<Rightarrow> store" where
  "SetTime h p t = h\<lparr>cells := (cells h)(p := (cells h p)\<lparr>ev_time := Some t\<rparr>)\<rparr>"

subsection \<open>Requests, responses and outcome records\<close>

record request =
  Method :: string
  URL :: string
  Header :: header
  ReqBody :: "bytes option"

text \<open>
  A response carries its status code and headers; \<open>RespBody\<close> is what reading the body
  stream to its end gives (\<^verbatim>\<open>ioutil.ReadAll(res.Body)\<close>): the bytes, or the read error.
\<close>

record response =
  RespStatusCode :: int
  RespHeader :: header
  RespBody :: "string + bytes"

datatype encoding = EncodingBinary | EncodingStructured | EncodingEvent | EncodingUnknown

datatype encoding_mode = Binary | Structured

text \<open>
  Modelled from the spec: the record type \<^verbatim>\<open>eventshub.EventInfo\<close> and its kinds are declared in
  the eventshub package, which the sender package imports. The spec lists its fields: kind, origin,
  observer, timestamp, sequence number, optional event, optional raw headers, optional raw
  body, optional status code, optional error string, optional sent identifier. A field the
  sender leaves out has Go's zero value: \<open>None\<close> for a pointer, map or slice, the empty string,
  0.
\<close>

datatype EventKind = EventReceived | EventRejected | EventSent | EventResponse

record EventInfo =
  Kind :: EventKind
  Error :: string
  Event :: "event option"
  HTTPHeaders :: "header option"
  Body :: "bytes option"
  StatusCode :: int
  Origin :: string
  Observer :: string
  Time :: time
  Sequence :: "64 word"
  SentId :: string

subsection \<open>The generator\<close>

text \<open>
  The exported fields of \<^verbatim>\<open>generator\<close> are the configuration read from the environment; the
  two unexported ones are the processed state. \<open>InputHeaders\<close> is a Go map; the list gives its
  entries in the order the \<^verbatim>\<open>range\<close> loop visits them.
\<close>

record config =
  SenderName :: string
  Sink :: string
  Delay :: go_int
  ProbeSink :: bool
  ProbeSinkTimeout :: go_int
  InputEvent :: string
  EventEncoding :: string
  InputHeaders :: "(string \<times> string) list"
  InputBody :: string
  InputMethod :: string
  AddTracing :: bool
  AddSequence :: bool
  IncrementalId :: bool
  OverrideTime :: bool
  Period :: go_int
  MaxMessages :: go_int

record generator = config +
  baseEvent :: "addr option"
  sequence :: go_int

text \<open>\<^verbatim>\<open>var env generator\<close> filled by \<^verbatim>\<open>envconfig.Process\<close>: the unexported fields keep their zero
  values.\<close>

definition new_generator :: "config \<Rightarrow> generator" where
  "new_generator c =
     \<lparr>SenderName = SenderName c, Sink = Sink c, Delay = Delay c, ProbeSink = ProbeSink c,
      ProbeSinkTimeout = ProbeSinkTimeout c, InputEvent = InputEvent c,
      EventEncoding = EventEncoding c, InputHeaders = InputHeaders c, InputBody = InputBody c,
      InputMethod = InputMethod c, AddTracing = AddTracing c, AddSequence = AddSequence c,
      IncrementalId = IncrementalId c, OverrideTime = OverrideTime c, Period = Period c,
      MaxMessages = MaxMessages c, baseEvent = None, sequence = 0\<rparr>"

subsection \<open>Errors and the ways a run ends\<close>

datatype error =
    EnvconfigFailed string            \<comment> \<open>failed to process env var\<close>
  | UnmarshalFailed string            \<comment> \<open>unable to unmarshal the event from json\<close>
  | InputValuesNotProvided
  | ProbeFailed string duration string \<comment> \<open>probing the sink (sink) using timeout (d) failed: (cause)\<close>
  | UnsupportedEncoding string
  | CannotCreateRequest string        \<comment> \<open>the error of \<^verbatim>\<open>NewRequest\<close>, returned as it is\<close>
  | CannotWriteEvent string           \<comment> \<open>the error of \<^verbatim>\<open>WriteRequest\<close>, returned as it is\<close>
  | CannotForwardEventInfo string     \<comment> \<open>cannot forward event info\<close>

text \<open>
  \<^verbatim>\<open>Start\<close> returns \<^verbatim>\<open>nil\<close> both when the message count is reached and when the context is
  closed; the model keeps the two apart. \<open>Panicked\<close> is the panic of \<^verbatim>\<open>time.NewTicker\<close> on a
  non-positive interval. \<open>Running\<close> is a loop that has not returned within the given number of
  iterations.
\<close>

datatype exit = Failed error | Panicked | MaxReached | Cancelled

datatype run_status = Running | Done exit

fun returned_error :: "exit \<Rightarrow> error option" where
  "returned_error (Failed e) = Some e"
| "returned_error Panicked = None"
| "returned_error MaxReached = None"
| "returned_error Cancelled = None"

datatype wake = Tick | CtxDone

subsection \<open>What the sender calls\<close>

text \<open>
  The libraries and the outside world are parameters of the model, one field for each call
  the sender makes:
  \<^item> \<open>envconfig_Process\<close>: the struct as \<^verbatim>\<open>envconfig.Process\<close> leaves it, and its error;
  \<^item> \<open>json_Unmarshal\<close>: \<^verbatim>\<open>json.Unmarshal\<close> into a \<^verbatim>\<open>*cloudevents.Event\<close>: an error, or the
    event (\<open>None\<close> for the JSON value \<^verbatim>\<open>null\<close>, which leaves the pointer nil);
  \<^item> \<open>NewRequest_error\<close>: the error of \<^verbatim>\<open>http.NewRequest\<close> for a method and a URL;
  \<^item> \<open>CanonicalHeaderKey\<close>: the canonical form \<^verbatim>\<open>Header.Add\<close> gives a key;
  \<^item> \<open>WriteRequest\<close>: \<^verbatim>\<open>cehttp.WriteRequest\<close> for the encoding selected in the context;
  \<^item> \<open>probe_attempts\<close>: how many further polls fit in the probing timeout after the first;
  \<^item> \<open>probe_Do\<close>: the exchange of the k-th probe, a transport error or a response;
  \<^item> \<open>client_Do\<close>: the exchange of the i-th iteration, for a client with or without tracing;
  \<^item> \<open>ReadEncoding\<close>, \<open>ToEvent\<close>: the SDK's reading of a response as a message;
  \<^item> \<open>logs_Vent\<close>: the answer of the sink to a record, given how many it has accepted;
  \<^item> \<open>time_Now\<close>: the clock as read by the k-th call of iteration i;
  \<^item> \<open>select_wake\<close>: which case of the \<^verbatim>\<open>select\<close> after iteration i is taken.
\<close>

record deps =
  envconfig_Process :: "config \<times> string option"
  json_Unmarshal :: "string \<Rightarrow> string + event option"
  NewRequest_error :: "string \<Rightarrow> string \<Rightarrow> string option"
  CanonicalHeaderKey :: "string \<Rightarrow> string"
  WriteRequest :: "encoding_mode \<Rightarrow> event \<Rightarrow> request \<Rightarrow> string + request"
  probe_attempts :: nat
  probe_Do :: "nat \<Rightarrow> request \<Rightarrow> string + response"
  client_Do :: "bool \<Rightarrow> nat \<Rightarrow> request \<Rightarrow> string + response"
  ReadEncoding :: "response \<Rightarrow> encoding"
  ToEvent :: "response \<Rightarrow> string + event"
  logs_Vent :: "nat \<Rightarrow> EventInfo \<Rightarrow> string option"
  time_Now :: "nat \<Rightarrow> nat \<Rightarrow> time"
  select_wake :: "nat \<Rightarrow> wake"

definition NewRequest :: "deps \<Rightarrow> string \<Rightarrow> string \<Rightarrow> string + request" where
  "NewRequest d m u =
     (case NewRequest_error d m u of
        Some err \<Rightarrow> Inl err
      | None \<Rightarrow> Inr \<lparr>Method = m, URL = u, Header = Map.empty, ReqBody = None\<rparr>)"

definition Header_Add :: "deps \<Rightarrow> header \<Rightarrow> string \<Rightarrow> string \<Rightarrow> header" where
  "Header_Add d hs k v =
     hs(CanonicalHeaderKey d k \<mapsto>
        (case hs (CanonicalHeaderKey d k) of None \<Rightarrow> [] | Some vs \<Rightarrow> vs) @ [v])"

text \<open>\<^verbatim>\<open>strconv.Itoa\<close>: the decimal digits of a signed integer.\<close>

text \<open>The digit for a number below ten; \<open>decimal\<close> asks for no other.\<close>

definition digit :: "nat \<Rightarrow> char" where
  "digit n = ''0123456789'' ! n"

fun decimal :: "nat \<Rightarrow> string" where
  "decimal n = (if n < 10 then [digit n] else decimal (n div 10) @ [digit (n mod 10)])"

declare decimal.simps [simp del]

definition Itoa :: "int \<Rightarrow> string" where
  "Itoa i = (if i < 0 then CHR ''-'' # decimal (nat (- i)) else decimal (nat i))"

section \<open>The sender\<close>

subsection \<open>\<^verbatim>\<open>generator.init\<close>\<close>

definition generator_init :: "deps \<Rightarrow> generator \<Rightarrow> store \<Rightarrow> error + generator \<times> store" where
  "generator_init d g h =
     (case (if InputEvent g \<noteq> []
            then (case json_Unmarshal d (InputEvent g) of
                    Inl err \<Rightarrow> Inl (UnmarshalFailed err)
                  | Inr None \<Rightarrow> Inr (g\<lparr>baseEvent := None\<rparr>, h)
                  | Inr (Some e) \<Rightarrow>
                      (case new_event h e of (p, h') \<Rightarrow> Inr (g\<lparr>baseEvent := Some p\<rparr>, h')))
            else Inr (g, h)) of
        Inl err \<Rightarrow> Inl err
      | Inr (g', h') \<Rightarrow>
          if InputEvent g' = [] \<and> InputBody g' = [] \<and> length (InputHeaders g') = 0
          then Inl InputValuesNotProvided
          else Inr (g', h'))"

subsection \<open>\<^verbatim>\<open>generator.hasNext\<close>\<close>

definition generator_hasNext :: "generator \<Rightarrow> bool" where
  "generator_hasNext g = (if MaxMessages g = 0 then True else sequence g <s MaxMessages g)"

subsection \<open>\<^verbatim>\<open>generator.next\<close>\<close>

text \<open>
  The method writes \<^verbatim>\<open>g.sequence\<close> and the store, so the model returns both next to the
  result, also on the error paths: an encoding failure comes after the increment. \<open>t\<close> is the
  clock reading of \<^verbatim>\<open>time.Now()\<close> in this call.
\<close>

definition static_overrides :: "deps \<Rightarrow> generator \<Rightarrow> request \<Rightarrow> request" where
  "static_overrides d g req =
     (let req1 = (if length (InputHeaders g) \<noteq> 0
                  then req\<lparr>Header := foldl (\<lambda>hs (k, v). Header_Add d hs k v) (Header req) (InputHeaders g)\<rparr>
                  else req)
      in if InputBody g \<noteq> [] then req1\<lparr>ReqBody := Some (InputBody g)\<rparr> else req1)"

definition generator_next ::
  "deps \<Rightarrow> encoding_mode \<Rightarrow> time \<Rightarrow> generator \<Rightarrow> store
     \<Rightarrow> (error + request \<times> addr option) \<times> generator \<times> store" where
  "generator_next d enc t g h =
     (case NewRequest d (InputMethod g) (Sink g) of
        Inl err \<Rightarrow> (Inl (CannotCreateRequest err), g, h)
      | Inr req \<Rightarrow>
          (case baseEvent g of
             None \<Rightarrow> (Inr (static_overrides d g req, None), g, h)
           | Some b \<Rightarrow>
               (case Clone h b of
                  (event, h0) \<Rightarrow>
                    (let g1 = g\<lparr>sequence := sequence g + 1\<rparr>;
                         h1 = (if AddSequence g1
                               then SetExtension h0 event ''sequence'' (ExtInt (sint (sequence g1)))
                               else h0);
                         h2 = (if IncrementalId g1
                               then SetID h1 event (Itoa (sint (sequence g1)))
                               else h1);
                         h3 = (if OverrideTime g1 then SetTime h2 event t else h2)
                     in (case WriteRequest d enc (cells h3 event) req of
                           Inl err \<Rightarrow> (Inl (CannotWriteEvent err), g1, h3)
                         | Inr req' \<Rightarrow>
                             (Inr (static_overrides d g1 req', Some event), g1, h3))))))"

subsection \<open>\<^verbatim>\<open>generator.sentInfo\<close> and \<^verbatim>\<open>generator.responseInfo\<close>\<close>

text \<open>
  A record holds the event its pointer refers to when the record is made; the sender writes to
  an event only in \<^verbatim>\<open>next\<close>, before the records of that event exist. \<open>t\<close> is the clock
  reading of the call. The copy of the request headers, entry by entry into a fresh map, is
  the same map.
\<close>

definition event_ID :: "store \<Rightarrow> addr option \<Rightarrow> string" where
  "event_ID h event = (case event of None \<Rightarrow> [] | Some p \<Rightarrow> ID h p)"

definition generator_sentInfo ::
  "generator \<Rightarrow> store \<Rightarrow> addr option \<Rightarrow> request \<Rightarrow> string option \<Rightarrow> time \<Rightarrow> EventInfo" where
  "generator_sentInfo g h event req err t =
     (let eventId = event_ID h event in
      case err of
        Some msg \<Rightarrow>
          \<lparr>Kind = EventSent, Error = msg, Event = None, HTTPHeaders = None, Body = None,
           StatusCode = 0, Origin = SenderName g, Observer = SenderName g, Time = t,
           Sequence = sequence g, SentId = eventId\<rparr>
      | None \<Rightarrow>
          \<lparr>Kind = EventSent, Error = [], Event = map_option (cells h) event,
           HTTPHeaders = Some (Header req),
           Body = (if InputBody g \<noteq> [] then Some (InputBody g) else None),
           StatusCode = 0, Origin = SenderName g, Observer = SenderName g, Time = t,
           Sequence = sequence g, SentId = eventId\<rparr>)"

definition generator_responseInfo ::
  "deps \<Rightarrow> generator \<Rightarrow> store \<Rightarrow> response \<Rightarrow> addr option \<Rightarrow> time \<Rightarrow> EventInfo" where
  "generator_responseInfo d g h res event t =
     (let eventId = event_ID h event;
          responseInfo =
            \<lparr>Kind = EventResponse, Error = [], Event = None,
             HTTPHeaders = Some (RespHeader res), Body = None,
             StatusCode = RespStatusCode res, Origin = Sink g, Observer = SenderName g,
             Time = t, Sequence = sequence g, SentId = eventId\<rparr>
      in if ReadEncoding d res = EncodingUnknown
         then (case RespBody res of
                 Inl err \<Rightarrow> responseInfo\<lparr>Error := err\<rparr>
               | Inr body \<Rightarrow> responseInfo\<lparr>Body := Some body\<rparr>)
         else (case ToEvent d res of
                 Inl err \<Rightarrow> responseInfo\<lparr>Error := err\<rparr>
               | Inr responseEvent \<Rightarrow> responseInfo\<lparr>Event := Some responseEvent\<rparr>))"

subsection \<open>\<^verbatim>\<open>Start\<close>\<close>

text \<open>
  Modelled from the spec: \<^verbatim>\<open>wait.PollImmediate\<close> belongs to the Kubernetes utilities, a
  library the sender package imports. The spec has it issue the check repeatedly at a short fixed interval
  until one check succeeds or the timeout elapses, and fail on timeout. It tries once at
  once; \<open>n\<close> is the number of further tries that fit in the timeout, \<open>k\<close> counts the tries
  made. A check that returns an error ends the polling with that error.
\<close>

definition ErrWaitTimeout :: string where
  "ErrWaitTimeout = ''timed out waiting for the condition''"

fun PollImmediate :: "nat \<Rightarrow> (nat \<Rightarrow> string + bool) \<Rightarrow> nat \<Rightarrow> string option" where
  "PollImmediate n condition k =
     (case condition k of
        Inl err \<Rightarrow> Some err
      | Inr True \<Rightarrow> None
      | Inr False \<Rightarrow>
          (case n of 0 \<Rightarrow> Some ErrWaitTimeout | Suc m \<Rightarrow> PollImmediate m condition (Suc k)))"

declare PollImmediate.simps [simp del]

text \<open>The closure handed to \<^verbatim>\<open>PollImmediate\<close>: a \<^verbatim>\<open>HEAD\<close> request to the sink.\<close>

definition probe_condition :: "deps \<Rightarrow> generator \<Rightarrow> nat \<Rightarrow> string + bool" where
  "probe_condition d env k =
     (case NewRequest d ''HEAD'' (Sink env) of
        Inl err \<Rightarrow> Inl err
      | Inr req \<Rightarrow>
          (case probe_Do d k req of
             Inl err \<Rightarrow> Inr False
           | Inr res \<Rightarrow> Inr True))"

definition logs_Vent_to :: "deps \<Rightarrow> EventInfo list \<Rightarrow> EventInfo \<Rightarrow> string + EventInfo list" where
  "logs_Vent_to d log info =
     (case logs_Vent d (length log) info of
        Some err \<Rightarrow> Inl err
      | None \<Rightarrow> Inr (log @ [info]))"

text \<open>
  One pass through the body of the \<^verbatim>\<open>for\<close> loop, up to the call of \<^verbatim>\<open>hasNext\<close>: build, send,
  publish the sent record, publish the response record. \<open>Some\<close> is the error \<^verbatim>\<open>Start\<close>
  returns from inside the body.
\<close>

definition send_iteration ::
  "deps \<Rightarrow> encoding_mode \<Rightarrow> nat \<Rightarrow> generator \<Rightarrow> store \<Rightarrow> EventInfo list
     \<Rightarrow> error option \<times> generator \<times> store \<times> EventInfo list" where
  "send_iteration d enc i env h log =
     (case generator_next d enc (time_Now d i 0) env h of
        (Inl err, env1, h1) \<Rightarrow> (Some err, env1, h1, log)
      | (Inr (req, event), env1, h1) \<Rightarrow>
          (let exchange = client_Do d (AddTracing env1) i req;
               err = (case exchange of Inl e \<Rightarrow> Some e | Inr res \<Rightarrow> None)
           in case logs_Vent_to d log (generator_sentInfo env1 h1 event req err (time_Now d i 1)) of
                Inl verr \<Rightarrow> (Some (CannotForwardEventInfo verr), env1, h1, log)
              | Inr log1 \<Rightarrow>
                  (case exchange of
                     Inl e \<Rightarrow> (None, env1, h1, log1)
                   | Inr res \<Rightarrow>
                       (case logs_Vent_to d log1
                               (generator_responseInfo d env1 h1 res event (time_Now d i 2)) of
                          Inl verr \<Rightarrow> (Some (CannotForwardEventInfo verr), env1, h1, log1)
                        | Inr log2 \<Rightarrow> (None, env1, h1, log2)))))"

text \<open>
  The \<^verbatim>\<open>for\<close> loop. It may run forever, so the first argument bounds the number of
  iterations; a loop that has not returned by then is \<open>Running\<close>, with the state it has
  reached.
\<close>

fun send_loop ::
  "nat \<Rightarrow> deps \<Rightarrow> encoding_mode \<Rightarrow> nat \<Rightarrow> generator \<Rightarrow> store \<Rightarrow> EventInfo list
     \<Rightarrow> run_status \<times> generator \<times> store \<times> EventInfo list" where
  "send_loop 0 d enc i env h log = (Running, env, h, log)"
| "send_loop (Suc n) d enc i env h log =
     (case send_iteration d enc i env h log of
        (Some err, env1, h1, log1) \<Rightarrow> (Done (Failed err), env1, h1, log1)
      | (None, env1, h1, log1) \<Rightarrow>
          if \<not> generator_hasNext env1 then (Done MaxReached, env1, h1, log1)
          else (case select_wake d i of
                  Tick \<Rightarrow> send_loop n d enc (Suc i) env1 h1 log1
                | CtxDone \<Rightarrow> (Done Cancelled, env1, h1, log1)))"

definition select_encoding :: "string \<Rightarrow> encoding_mode option" where
  "select_encoding s =
     (if s = ''binary'' then Some Binary
      else if s = ''structured'' then Some Structured
      else None)"

text \<open>
  \<^verbatim>\<open>Start\<close>. Sleeping for the start delay and logging change nothing the model observes.
  \<^verbatim>\<open>time.NewTicker\<close> panics when the period is not positive.
\<close>

definition Start :: "nat \<Rightarrow> deps \<Rightarrow> run_status \<times> generator \<times> store \<times> EventInfo list" where
  "Start fuel d =
     (case envconfig_Process d of
        (c, Some err) \<Rightarrow> (Done (Failed (EnvconfigFailed err)), new_generator c, empty_store, [])
      | (c, None) \<Rightarrow>
          (case generator_init d (new_generator c) empty_store of
             Inl err \<Rightarrow> (Done (Failed err), new_generator c, empty_store, [])
           | Inr (env, h) \<Rightarrow>
               (let period = Period env * Second;
                    probingTimeout = ProbeSinkTimeout env * Second
                in case (if ProbeSink env
                         then PollImmediate (probe_attempts d) (probe_condition d env) 0
                         else None) of
                     Some err \<Rightarrow>
                       (Done (Failed (ProbeFailed (Sink env) probingTimeout err)), env, h, [])
                   | None \<Rightarrow>
                       (case select_encoding (EventEncoding env) of
                          None \<Rightarrow>
                            (Done (Failed (UnsupportedEncoding (EventEncoding env))), env, h, [])
                        | Some enc \<Rightarrow>
                            if period \<le>s 0 then (Done Panicked, env, h, [])
                            else send_loop fuel d enc 0 env h []))))"


section \<open>Reading a run\<close>

text \<open>The four components of what \<open>Start\<close> and \<open>send_loop\<close> return.\<close>

definition status_of :: "run_status \<times> generator \<times> store \<times> EventInfo list \<Rightarrow> run_status" where
  "status_of r = fst r"

definition generator_of :: "run_status \<times> generator \<times> store \<times> EventInfo list \<Rightarrow> generator" where
  "generator_of r = fst (snd r)"

definition store_of :: "run_status \<times> generator \<times> store \<times> EventInfo list \<Rightarrow> store" where
  "store_of r = fst (snd (snd r))"

definition outcomes :: "run_status \<times> generator \<times> store \<times> EventInfo list \<Rightarrow> EventInfo list" where
  "outcomes r = snd (snd (snd r))"

definition sent_records :: "EventInfo list \<Rightarrow> EventInfo list" where
  "sent_records log = filter (\<lambda>r. Kind r = EventSent) log"

definition response_records :: "EventInfo list \<Rightarrow> EventInfo list" where
  "response_records log = filter (\<lambda>r. Kind r = EventResponse) log"

text \<open>
  The store after the template branch of \<open>generator_next\<close>: the copy sits at the old \<open>top\<close>,
  with the overrides applied to it.
\<close>

definition built_store :: "generator \<Rightarrow> time \<Rightarrow> store \<Rightarrow> addr \<Rightarrow> store" where
  "built_store g t h b =
     (let h0 = snd (Clone h b); event = top h; s = sequence g + 1;
          h1 = (if AddSequence g then SetExtension h0 event ''sequence'' (ExtInt (sint s)) else h0);
          h2 = (if IncrementalId g then SetID h1 event (Itoa (sint s)) else h1)
      in if OverrideTime g then SetTime h2 event t else h2)"

text \<open>
  The Sent records of a log are numbered 1, 2, ... in the order they were published, and a
  record that carries an event carries one whose \<open>sequence\<close> extension is the record's
  number, when the extension is asked for.
\<close>

definition sequenced :: "bool \<Rightarrow> EventInfo list \<Rightarrow> bool" where
  "sequenced add log \<longleftrightarrow>
     map Sequence (sent_records log) = map of_nat [1..<Suc (length (sent_records log))] \<and>
     (\<forall>r \<in> set (sent_records log). \<forall>ev. Event r = Some ev \<longrightarrow> add \<longrightarrow>
        ev_extensions ev ''sequence'' = Some (ExtInt (sint (Sequence r))))"

text \<open>Every Sent record of a log names the identifier \<open>a\<close>, and so does the event it carries.\<close>

definition identified :: "string \<Rightarrow> EventInfo list \<Rightarrow> bool" where
  "identified a log \<longleftrightarrow>
     (\<forall>s \<in> set (sent_records log). SentId s = a \<and> (\<forall>ev. Event s = Some ev \<longrightarrow> ev_id ev = a))"

text \<open>Every Sent record of a log carries an event.\<close>

definition carried :: "EventInfo list \<Rightarrow> bool" where
  "carried log \<longleftrightarrow> (\<forall>s \<in> set (sent_records log). Event s \<noteq> None)"

text \<open>
  Two readings of a whole log. In a paired log every Response record stands directly after a
  Sent record and has that record's sequence number. In a counted log every record, Sent or
  Response, has as its sequence number the number of Sent records published up to it, itself
  included: the number of its iteration.
\<close>

definition paired :: "EventInfo list \<Rightarrow> bool" where
  "paired log \<longleftrightarrow>
     (\<forall>j < length log. Kind (log ! j) = EventResponse \<longrightarrow>
        0 < j \<and> Kind (log ! (j - 1)) = EventSent \<and> Sequence (log ! j) = Sequence (log ! (j - 1)))"

definition counted :: "EventInfo list \<Rightarrow> bool" where
  "counted log \<longleftrightarrow>
     (\<forall>j < length log.
        Sequence (log ! j) = of_nat (length (sent_records (take (Suc j) log))))"

subsection \<open>A sample configuration and a sample world\<close>

text \<open>
  The configuration of the spec's example, with the period as a parameter, and a world in
  which everything works: the environment holds the configuration, the base event parses,
  requests can be built and encoded, the sink answers 202 to every exchange, no probe gets
  through, the outcome sink accepts every record and the context is never closed.
\<close>

definition example_event :: event where
  "example_event = \<lparr>ev_id = ''a'', ev_source = [], ev_type = ''t'', ev_time = None,
     ev_extensions = Map.empty, ev_data = []\<rparr>"

definition example_config :: "go_int \<Rightarrow> config" where
  \<open>example_config p =
     \<lparr>SenderName = ''sender-default'', Sink = ''http://X'', Delay = 0, ProbeSink = False,
      ProbeSinkTimeout = 60, InputEvent = ''{"id":"a","type":"t"}'', EventEncoding = ''binary'',
      InputHeaders = [], InputBody = [], InputMethod = ''POST'', AddTracing = False,
      AddSequence = True, IncrementalId = False, OverrideTime = False, Period = p,
      MaxMessages = 2\<rparr>\<close>

definition example_response :: response where
  "example_response = \<lparr>RespStatusCode = 202, RespHeader = Map.empty, RespBody = Inr ''ok''\<rparr>"

definition example_deps :: "config \<Rightarrow> deps" where
  \<open>example_deps c =
     \<lparr>envconfig_Process = (c, None),
      json_Unmarshal = (\<lambda>s. if s = ''{"id":"a","type":"t"}'' then Inr (Some example_event)
                            else Inl ''invalid character''),
      NewRequest_error = (\<lambda>m u. None),
      CanonicalHeaderKey = (\<lambda>k. k),
      WriteRequest = (\<lambda>enc e req. Inr (req\<lparr>ReqBody := Some (''event '' @ ev_id e)\<rparr>)),
      probe_attempts = 2,
      probe_Do = (\<lambda>k req. Inl ''connection refused''),
      client_Do = (\<lambda>tracing i req. Inr example_response),
      ReadEncoding = (\<lambda>res. EncodingUnknown),
      ToEvent = (\<lambda>res. Inl ''unknown encoding''),
      logs_Vent = (\<lambda>n info. None),
      time_Now = (\<lambda>i k. int (3 * i + k)),
      select_wake = (\<lambda>i. Tick)\<rparr>\<close>

text \<open>The generator and the store of the sample configuration once \<open>generator_init\<close> has run.\<close>

definition example_generator :: generator where
  "example_generator = (new_generator (example_config 1))\<lparr>baseEvent := Some 0\<rparr>"

definition example_store :: store where
  "example_store = \<lparr>cells = (\<lambda>_. zero_event)(0 := example_event), top = Suc 0\<rparr>"

section \<open>Facts about the operations\<close>

subsection \<open>Counters in range\<close>

lemma sint_of_nat_small: "n < 2 ^ 63 \<Longrightarrow> sint (of_nat n :: 64 word) = int n"
  by (simp add: signed_of_nat signed_take_bit_int_eq_self)

lemma unat_of_nat_small: "n < 2 ^ 64 \<Longrightarrow> unat (of_nat n :: 64 word) = n"
  by (simp add: unat_of_nat)

lemma nat_sint_bound: "nat (sint (K :: 64 word)) < 2 ^ 63"
  using sint_lt [of K] by simp

lemma positive_of_nat: "0 <s (K :: 64 word) \<Longrightarrow> K = of_nat (nat (sint K))"
  by (simp add: word_sless_alt)

lemma positive_nat_sint: "0 <s (K :: 64 word) \<Longrightarrow> 0 < nat (sint K)"
  by (simp add: word_sless_alt)

subsection \<open>The store\<close>

lemma setters_top [simp]:
  "top (SetExtension h p n v) = top h" "top (SetID h p s) = top h" "top (SetTime h p t) = top h"
  by (simp_all add: SetExtension_def SetID_def SetTime_def)

lemma setters_other [simp]:
  "q \<noteq> p \<Longrightarrow> cells (SetExtension h p n v) q = cells h q"
  "q \<noteq> p \<Longrightarrow> cells (SetID h p s) q = cells h q"
  "q \<noteq> p \<Longrightarrow> cells (SetTime h p t) q = cells h q"
  by (simp_all add: SetExtension_def SetID_def SetTime_def)

lemma Clone_simps [simp]:
  "fst (Clone h b) = top h" "top (snd (Clone h b)) = Suc (top h)"
  "cells (snd (Clone h b)) = (cells h)(top h := cells h b)"
  by (simp_all add: Clone_def new_event_def)

lemma built_store_top [simp]: "top (built_store g t h b) = Suc (top h)"
  by (simp add: built_store_def Let_def)

lemma built_store_other [simp]: "q \<noteq> top h \<Longrightarrow> cells (built_store g t h b) q = cells h q"
  by (simp add: built_store_def Let_def)

lemma built_store_sequence:
  "AddSequence g \<Longrightarrow>
     ev_extensions (cells (built_store g t h b) (top h)) ''sequence'' = Some (ExtInt (sint (sequence g + 1)))"
  by (simp add: built_store_def Let_def SetExtension_def SetID_def SetTime_def)

lemma built_store_id:
  "ev_id (cells (built_store g t h b) (top h)) =
     (if IncrementalId g then Itoa (sint (sequence g + 1)) else ev_id (cells h b))"
  by (simp add: built_store_def Let_def SetExtension_def SetID_def SetTime_def)

subsection \<open>The branches of \<open>generator_next\<close> and of the loop body\<close>

lemma generator_next_no_request:
  "NewRequest d (InputMethod g) (Sink g) = Inl err \<Longrightarrow>
     generator_next d enc t g h = (Inl (CannotCreateRequest err), g, h)"
  by (simp add: generator_next_def)

lemma generator_next_no_template:
  "NewRequest d (InputMethod g) (Sink g) = Inr req \<Longrightarrow> baseEvent g = None \<Longrightarrow>
     generator_next d enc t g h = (Inr (static_overrides d g req, None), g, h)"
  by (simp add: generator_next_def)

lemma generator_next_template:
  "NewRequest d (InputMethod g) (Sink g) = Inr req \<Longrightarrow> baseEvent g = Some b \<Longrightarrow>
     generator_next d enc t g h =
       (case WriteRequest d enc (cells (built_store g t h b) (top h)) req of
          Inl err \<Rightarrow> (Inl (CannotWriteEvent err), g\<lparr>sequence := sequence g + 1\<rparr>, built_store g t h b)
        | Inr req' \<Rightarrow>
            (Inr (static_overrides d (g\<lparr>sequence := sequence g + 1\<rparr>) req', Some (top h)),
             g\<lparr>sequence := sequence g + 1\<rparr>, built_store g t h b))"
  by (simp add: generator_next_def built_store_def Clone_def new_event_def Let_def split: sum.split)

lemma send_iteration_cases:
  assumes "send_iteration d enc i env h log = (r, env1, h1, log1)"
  obtains
    (next_failed) err where
      "generator_next d enc (time_Now d i 0) env h = (Inl err, env1, h1)"
      "r = Some err" "log1 = log"
  | (sent_refused) req event verr where
      "generator_next d enc (time_Now d i 0) env h = (Inr (req, event), env1, h1)"
      "r = Some (CannotForwardEventInfo verr)" "log1 = log"
  | (transport_error) req event e where
      "generator_next d enc (time_Now d i 0) env h = (Inr (req, event), env1, h1)"
      "client_Do d (AddTracing env1) i req = Inl e" "r = None"
      "log1 = log @ [generator_sentInfo env1 h1 event req (Some e) (time_Now d i 1)]"
  | (response_refused) req event res verr where
      "generator_next d enc (time_Now d i 0) env h = (Inr (req, event), env1, h1)"
      "client_Do d (AddTracing env1) i req = Inr res"
      "r = Some (CannotForwardEventInfo verr)"
      "log1 = log @ [generator_sentInfo env1 h1 event req None (time_Now d i 1)]"
  | (complete) req event res where
      "generator_next d enc (time_Now d i 0) env h = (Inr (req, event), env1, h1)"
      "client_Do d (AddTracing env1) i req = Inr res" "r = None"
      "log1 = log @ [generator_sentInfo env1 h1 event req None (time_Now d i 1),
                     generator_responseInfo d env1 h1 res event (time_Now d i 2)]"
proof -
  obtain nr env' h' where nx: "generator_next d enc (time_Now d i 0) env h = (nr, env', h')"
    by (cases "generator_next d enc (time_Now d i 0) env h") auto
  show thesis
  proof (cases nr)
    case (Inl err)
    with assms nx show thesis
      using next_failed by (auto simp: send_iteration_def)
  next
    case (Inr p)
    obtain req event where p: "p = (req, event)" by (cases p) auto
    note nx' = nx [unfolded Inr p]
    show thesis
    proof (cases "client_Do d (AddTracing env') i req")
      case exch: (Inl e)
      show thesis
      proof (cases "logs_Vent d (length log)
                      (generator_sentInfo env' h' event req (Some e) (time_Now d i 1))")
        case None
        with assms nx' exch show thesis
          using transport_error by (auto simp: send_iteration_def logs_Vent_to_def Let_def)
      next
        case (Some verr)
        with assms nx' exch show thesis
          using sent_refused by (auto simp: send_iteration_def logs_Vent_to_def Let_def)
      qed
    next
      case exch: (Inr res)
      show thesis
      proof (cases "logs_Vent d (length log)
                      (generator_sentInfo env' h' event req None (time_Now d i 1))")
        case (Some verr)
        with assms nx' exch show thesis
          using sent_refused by (auto simp: send_iteration_def logs_Vent_to_def Let_def)
      next
        case None
        show thesis
        proof (cases "logs_Vent d (Suc (length log))
                        (generator_responseInfo d env' h' res event (time_Now d i 2))")
          case rnone: None
          with assms nx' exch None show thesis
            using complete by (auto simp: send_iteration_def logs_Vent_to_def Let_def)
        next
          case rsome: (Some verr)
          with assms nx' exch None show thesis
            using response_refused by (auto simp: send_iteration_def logs_Vent_to_def Let_def)
        qed
      qed
    qed
  qed
qed


subsection \<open>Records and logs\<close>

lemma sentInfo_Kind [simp]: "Kind (generator_sentInfo g h event req err t) = EventSent"
  by (simp add: generator_sentInfo_def Let_def split: option.split)

lemma sentInfo_Sequence [simp]: "Sequence (generator_sentInfo g h event req err t) = sequence g"
  by (simp add: generator_sentInfo_def Let_def split: option.split)

lemma sentInfo_SentId [simp]: "SentId (generator_sentInfo g h event req err t) = event_ID h event"
  by (simp add: generator_sentInfo_def Let_def split: option.split)

lemma sentInfo_Event:
  "Event (generator_sentInfo g h event req err t) =
     (case err of Some msg \<Rightarrow> None | None \<Rightarrow> map_option (cells h) event)"
  by (simp add: generator_sentInfo_def Let_def split: option.split)

lemma responseInfo_Kind [simp]: "Kind (generator_responseInfo d g h res event t) = EventResponse"
  by (simp add: generator_responseInfo_def Let_def split: sum.split)

lemma responseInfo_Sequence [simp]:
  "Sequence (generator_responseInfo d g h res event t) = sequence g"
  by (simp add: generator_responseInfo_def Let_def split: sum.split)

lemma sent_records_append [simp]:
  "sent_records (xs @ ys) = sent_records xs @ sent_records ys"
  by (simp add: sent_records_def)

lemma response_records_append [simp]:
  "response_records (xs @ ys) = response_records xs @ response_records ys"
  by (simp add: response_records_def)

lemma sent_records_simps [simp]:
  "sent_records [] = []"
  "sent_records (x # xs) = (if Kind x = EventSent then x # sent_records xs else sent_records xs)"
  by (simp_all add: sent_records_def)

lemma response_records_simps [simp]:
  "response_records [] = []"
  "response_records (x # xs) =
     (if Kind x = EventResponse then x # response_records xs else response_records xs)"
  by (simp_all add: response_records_def)

text \<open>What a call of \<open>generator_next\<close> with a template leaves behind.\<close>

lemma generator_next_with_template:
  assumes "generator_next d enc t g h = (r, g', h')" and "baseEvent g = Some b"
  obtains
    (no_request) err where "r = Inl (CannotCreateRequest err)" "g' = g" "h' = h"
  | (not_written) err where "r = Inl (CannotWriteEvent err)"
      "g' = g\<lparr>sequence := sequence g + 1\<rparr>" "h' = built_store g t h b"
  | (written) req where "r = Inr (req, Some (top h))"
      "g' = g\<lparr>sequence := sequence g + 1\<rparr>" "h' = built_store g t h b"
proof (cases "NewRequest d (InputMethod g) (Sink g)")
  case (Inl err)
  with assms no_request show thesis
    by (auto simp: generator_next_no_request)
next
  case (Inr req)
  show thesis
  proof (cases "WriteRequest d enc (cells (built_store g t h b) (top h)) req")
    case wr: (Inl err)
    with assms Inr not_written show thesis
      by (auto simp: generator_next_template)
  next
    case wr: (Inr req')
    with assms Inr written show thesis
      by (auto simp: generator_next_template)
  qed
qed

lemma sequenced_Nil [simp]: "sequenced add []"
  by (simp add: sequenced_def)

lemma sequenced_sent:
  assumes "sequenced add log" "Kind s = EventSent"
    "Sequence s = of_nat (length (sent_records log)) + 1"
    "\<And>ev. Event s = Some ev \<Longrightarrow> add \<Longrightarrow>
       ev_extensions ev ''sequence'' = Some (ExtInt (sint (Sequence s)))"
  shows "sequenced add (log @ [s])"
  using assms by (auto simp: sequenced_def)

lemma sequenced_response:
  "Kind r = EventResponse \<Longrightarrow> sequenced add (log @ [r]) = sequenced add log"
  by (simp add: sequenced_def)

lemma sequenced_sent_response:
  "Kind r = EventResponse \<Longrightarrow> sequenced add (log @ [s, r]) = sequenced add (log @ [s])"
  using sequenced_response [of r add "log @ [s]"] by simp

lemma send_iteration_sequenced:
  assumes it: "send_iteration d enc i env h log = (r, env1, h1, log1)"
    and b: "baseEvent env = Some b"
    and s: "sequence env = of_nat (length (sent_records log))"
    and inv: "sequenced (AddSequence env) log"
  shows "sequenced (AddSequence env) log1"
    and "baseEvent env1 = Some b"
    and "AddSequence env1 = AddSequence env"
    and "r = None \<Longrightarrow> sequence env1 = of_nat (length (sent_records log1))"
proof -
  let ?t = "time_Now d i 0"
  have built: "sequenced (AddSequence env) (log @ [generator_sentInfo env1 h1 event req err t])"
    if nx: "generator_next d enc ?t env h = (Inr (req, event), env1, h1)" for req event err t
    using nx b
  proof (cases rule: generator_next_with_template)
    case (written req')
    show ?thesis
    proof (rule sequenced_sent [OF inv])
      show "Sequence (generator_sentInfo env1 h1 event req err t) =
              of_nat (length (sent_records log)) + 1"
        using written s by simp
    next
      fix ev
      assume "Event (generator_sentInfo env1 h1 event req err t) = Some ev"
        and "AddSequence env"
      then show "ev_extensions ev ''sequence'' =
                   Some (ExtInt (sint (Sequence (generator_sentInfo env1 h1 event req err t))))"
        using written by (auto simp: sentInfo_Event built_store_sequence split: option.splits)
    qed simp
  qed simp_all
  have state: "baseEvent env1 = Some b \<and> AddSequence env1 = AddSequence env \<and>
               sequence env1 = sequence env + 1"
    if nx: "generator_next d enc ?t env h = (Inr (req, event), env1, h1)" for req event
    using nx b by (cases rule: generator_next_with_template) (simp_all add: b)
  have failed: "baseEvent env1 = Some b \<and> AddSequence env1 = AddSequence env"
    if nx: "generator_next d enc ?t env h = (rr, env1, h1)" for rr
    using nx b by (cases rule: generator_next_with_template) (simp_all add: b)
  from it show "sequenced (AddSequence env) log1"
    by (cases rule: send_iteration_cases) (simp_all add: inv built sequenced_sent_response)
  from it show "baseEvent env1 = Some b"
    by (cases rule: send_iteration_cases) (simp_all add: failed)
  from it show "AddSequence env1 = AddSequence env"
    by (cases rule: send_iteration_cases) (simp_all add: failed)
  show "sequence env1 = of_nat (length (sent_records log1))" if "r = None"
    using it that
    by (cases rule: send_iteration_cases) (simp_all add: state s)
qed

lemma send_loop_sequenced:
  assumes "baseEvent env = Some b"
    and "sequence env = of_nat (length (sent_records log))"
    and "sequenced (AddSequence env) log"
  shows "sequenced (AddSequence env) (outcomes (send_loop n d enc i env h log))"
  using assms
proof (induction n arbitrary: i env h log)
  case 0
  then show ?case by (simp add: outcomes_def)
next
  case (Suc n)
  obtain r env1 h1 log1 where it: "send_iteration d enc i env h log = (r, env1, h1, log1)"
    by (cases "send_iteration d enc i env h log") auto
  note facts = send_iteration_sequenced [OF it Suc.prems]
  show ?case
  proof (cases r)
    case (Some err)
    with it facts(1) show ?thesis by (simp add: outcomes_def)
  next
    case None
    have "sequenced (AddSequence env1) (outcomes (send_loop n d enc (Suc i) env1 h1 log1))"
      using facts None by (intro Suc.IH) simp_all
    with it None facts show ?thesis
      by (simp add: outcomes_def split: wake.split)
  qed
qed


subsection \<open>Runs in which nothing fails\<close>

lemma send_iteration_accepted:
  assumes "generator_next d enc (time_Now d i 0) env h = (Inr (req, event), env1, h1)"
    and "\<forall>n info. logs_Vent d n info = None"
  shows "send_iteration d enc i env h log =
           (None, env1, h1,
            log @ (case client_Do d (AddTracing env1) i req of
                     Inl e \<Rightarrow> [generator_sentInfo env1 h1 event req (Some e) (time_Now d i 1)]
                   | Inr res \<Rightarrow>
                       [generator_sentInfo env1 h1 event req None (time_Now d i 1),
                        generator_responseInfo d env1 h1 res event (time_Now d i 2)]))"
  using assms by (simp add: send_iteration_def logs_Vent_to_def Let_def split: sum.split)

lemma send_iteration_accepted_counts:
  assumes "generator_next d enc (time_Now d i 0) env h = (Inr (req, event), env1, h1)"
    and "\<forall>n info. logs_Vent d n info = None"
  obtains log1 where "send_iteration d enc i env h log = (None, env1, h1, log1)"
    and "length (sent_records log1) = Suc (length (sent_records log))"
    and "length (response_records log1) \<le> Suc (length (response_records log))"
  using send_iteration_accepted [OF assms, of log]
  by (cases "client_Do d (AddTracing env1) i req") simp_all

lemma generator_next_built:
  assumes "baseEvent g = Some b"
    and "NewRequest_error d (InputMethod g) (Sink g) = None"
    and "\<forall>ev req. \<exists>req'. WriteRequest d enc ev req = Inr req'"
  obtains req where
    "generator_next d enc t g h =
       (Inr (req, Some (top h)), g\<lparr>sequence := sequence g + 1\<rparr>, built_store g t h b)"
proof -
  let ?req0 = "\<lparr>Method = InputMethod g, URL = Sink g, Header = Map.empty, ReqBody = None\<rparr>"
  have nr: "NewRequest d (InputMethod g) (Sink g) = Inr ?req0"
    using assms(2) by (simp add: NewRequest_def)
  obtain req' where "WriteRequest d enc (cells (built_store g t h b) (top h)) ?req0 = Inr req'"
    using assms(3) by blast
  then show thesis
    using that generator_next_template [OF nr assms(1)] by simp
qed

lemma hasNext_of_nat:
  assumes "0 <s MaxMessages g" and "sequence g = of_nat m" and "m \<le> nat (sint (MaxMessages g))"
  shows "generator_hasNext g \<longleftrightarrow> m < nat (sint (MaxMessages g))"
proof -
  have "m < 2 ^ 63"
    using assms(3) nat_sint_bound [of "MaxMessages g"] by simp
  then have "sint (sequence g) = int m"
    using assms(2) by (simp add: sint_of_nat_small)
  moreover have "MaxMessages g \<noteq> 0"
    using assms(1) by auto
  ultimately show ?thesis
    using assms(1) by (auto simp: generator_hasNext_def word_sless_alt)
qed

lemma send_loop_counts:
  assumes "baseEvent env = Some b"
    and "0 <s MaxMessages env"
    and "sequence env = of_nat m"
    and "m < nat (sint (MaxMessages env))"
    and "nat (sint (MaxMessages env)) - m \<le> n"
    and "NewRequest_error d (InputMethod env) (Sink env) = None"
    and "\<forall>ev req. \<exists>req'. WriteRequest d enc ev req = Inr req'"
    and "\<forall>n info. logs_Vent d n info = None"
    and "\<forall>j. Suc j < nat (sint (MaxMessages env)) \<longrightarrow> select_wake d j = Tick"
  shows "status_of (send_loop n d enc m env h log) = Done MaxReached \<and>
         length (sent_records (outcomes (send_loop n d enc m env h log))) =
           length (sent_records log) + (nat (sint (MaxMessages env)) - m) \<and>
         length (response_records (outcomes (send_loop n d enc m env h log))) \<le>
           length (response_records log) + (nat (sint (MaxMessages env)) - m) \<and>
         sequence (generator_of (send_loop n d enc m env h log)) = MaxMessages env"
  using assms
proof (induction n arbitrary: m env h log)
  case 0
  then show ?case by simp
next
  case (Suc n)
  let ?K = "nat (sint (MaxMessages env))"
  let ?env1 = "env\<lparr>sequence := sequence env + 1\<rparr>"
  obtain req where nx:
    "generator_next d enc (time_Now d m 0) env h =
       (Inr (req, Some (top h)), ?env1, built_store env (time_Now d m 0) h b)"
    using generator_next_built [OF Suc.prems(1,6,7)] by blast
  obtain log1 where it:
    "send_iteration d enc m env h log = (None, ?env1, built_store env (time_Now d m 0) h b, log1)"
    and sent: "length (sent_records log1) = Suc (length (sent_records log))"
    and resp: "length (response_records log1) \<le> Suc (length (response_records log))"
    using send_iteration_accepted_counts [OF nx Suc.prems(8)] by blast
  have seq1: "sequence ?env1 = of_nat (Suc m)"
    using Suc.prems(3) by simp
  have hn: "generator_hasNext ?env1 \<longleftrightarrow> Suc m < ?K"
    using hasNext_of_nat [of ?env1 "Suc m"] Suc.prems(2,4) seq1 by simp
  show ?case
  proof (cases "Suc m < ?K")
    case False
    then have km: "?K - m = 1"
      using Suc.prems(4) by arith
    then have "of_nat ?K = (of_nat (Suc m) :: 64 word)"
      using Suc.prems(4) by (metis False Suc_lessI)
    then have seqK: "sequence ?env1 = MaxMessages env"
      using seq1 positive_of_nat [OF Suc.prems(2)] by simp
    have st: "send_loop (Suc n) d enc m env h log =
                (Done MaxReached, ?env1, built_store env (time_Now d m 0) h b, log1)"
      using it hn False by simp
    show ?thesis
      unfolding st km using sent resp seqK
      by (simp add: status_of_def outcomes_def generator_of_def)
  next
    case True
    have tick: "select_wake d m = Tick"
      using True Suc.prems(9) by simp
    have "status_of (send_loop n d enc (Suc m) ?env1 (built_store env (time_Now d m 0) h b) log1)
            = Done MaxReached \<and>
          length (sent_records (outcomes
            (send_loop n d enc (Suc m) ?env1 (built_store env (time_Now d m 0) h b) log1))) =
            length (sent_records log1) + (nat (sint (MaxMessages ?env1)) - Suc m) \<and>
          length (response_records (outcomes
            (send_loop n d enc (Suc m) ?env1 (built_store env (time_Now d m 0) h b) log1))) \<le>
            length (response_records log1) + (nat (sint (MaxMessages ?env1)) - Suc m) \<and>
          sequence (generator_of
            (send_loop n d enc (Suc m) ?env1 (built_store env (time_Now d m 0) h b) log1)) =
            MaxMessages ?env1"
      using Suc.prems True seq1 by (intro Suc.IH) simp_all
    moreover have "send_loop (Suc n) d enc m env h log =
        send_loop n d enc (Suc m) ?env1 (built_store env (time_Now d m 0) h b) log1"
      using it hn True tick by simp
    ultimately show ?thesis
      using True sent resp by simp arith
  qed
qed

subsection \<open>Runs without a template\<close>

lemma send_iteration_no_template:
  assumes "send_iteration d enc i env h log = (r, env1, h1, log1)" and "baseEvent env = None"
  shows "env1 = env" and "h1 = h"
proof -
  have nx: "env' = env \<and> h' = h"
    if "generator_next d enc (time_Now d i 0) env h = (rr, env', h')" for rr env' h'
    using that assms(2)
    by (cases "NewRequest d (InputMethod env) (Sink env)")
      (simp_all add: generator_next_no_request generator_next_no_template)
  from assms(1) show "env1 = env"
    by (cases rule: send_iteration_cases) (auto dest: nx)
  from assms(1) show "h1 = h"
    by (cases rule: send_iteration_cases) (auto dest: nx)
qed

lemma hasNext_zero:
  assumes "sequence g = 0" and "0 <s MaxMessages g \<or> MaxMessages g = 0"
  shows "generator_hasNext g"
  using assms by (auto simp: generator_hasNext_def)

lemma send_loop_no_template:
  assumes "baseEvent env = None" and "sequence env = 0"
    and "0 <s MaxMessages env \<or> MaxMessages env = 0"
  shows "status_of (send_loop n d enc i env h log) \<noteq> Done MaxReached \<and>
         generator_of (send_loop n d enc i env h log) = env"
  using assms
proof (induction n arbitrary: i log)
  case 0
  then show ?case by (simp add: status_of_def generator_of_def)
next
  case (Suc n)
  obtain r env1 h1 log1 where it: "send_iteration d enc i env h log = (r, env1, h1, log1)"
    by (cases "send_iteration d enc i env h log") auto
  have same: "env1 = env" "h1 = h"
    using send_iteration_no_template [OF it Suc.prems(1)] by simp_all
  have hn: "generator_hasNext env"
    using hasNext_zero Suc.prems(2,3) by blast
  show ?case
  proof (cases r)
    case (Some err)
    with it same show ?thesis by (simp add: status_of_def generator_of_def)
  next
    case None
    show ?thesis
    proof (cases "select_wake d i")
      case Tick
      with it same None hn Suc.IH [OF Suc.prems, of "Suc i" log1] show ?thesis by simp
    next
      case CtxDone
      with it same None hn show ?thesis by (simp add: status_of_def generator_of_def)
    qed
  qed
qed

lemma send_loop_no_template_unbounded:
  assumes "baseEvent env = None" and "sequence env = 0"
    and "0 <s MaxMessages env \<or> MaxMessages env = 0"
    and "NewRequest_error d (InputMethod env) (Sink env) = None"
    and "\<forall>n info. logs_Vent d n info = None"
    and "\<forall>j. select_wake d j = Tick"
  shows "status_of (send_loop n d enc i env h log) = Running \<and>
         length (sent_records (outcomes (send_loop n d enc i env h log))) =
           length (sent_records log) + n"
  using assms
proof (induction n arbitrary: i log)
  case 0
  then show ?case by (simp add: status_of_def outcomes_def)
next
  case (Suc n)
  let ?req0 = "\<lparr>Method = InputMethod env, URL = Sink env, Header = Map.empty, ReqBody = None\<rparr>"
  have "NewRequest d (InputMethod env) (Sink env) = Inr ?req0"
    using Suc.prems(4) by (simp add: NewRequest_def)
  then have nx: "generator_next d enc (time_Now d i 0) env h =
                   (Inr (static_overrides d env ?req0, None), env, h)"
    using Suc.prems(1) by (simp add: generator_next_no_template)
  obtain log1 where it: "send_iteration d enc i env h log = (None, env, h, log1)"
    and sent: "length (sent_records log1) = Suc (length (sent_records log))"
    using send_iteration_accepted_counts [OF nx Suc.prems(5)] by blast
  have hn: "generator_hasNext env"
    using hasNext_zero Suc.prems(2,3) by blast
  have "send_loop (Suc n) d enc i env h log = send_loop n d enc (Suc i) env h log1"
    using it hn Suc.prems(6) by simp
  then show ?case
    using Suc.IH [OF Suc.prems, of "Suc i" log1] sent by simp
qed

subsection \<open>The template stays as it was parsed\<close>

lemma generator_next_template_kept:
  assumes "generator_next d enc t g h = (r, g', h')" and "baseEvent g = Some b" and "b < top h"
  shows "baseEvent g' = Some b \<and> cells h' b = cells h b \<and> b < top h' \<and>
         IncrementalId g' = IncrementalId g"
  using assms(1,2)
proof (cases rule: generator_next_with_template)
  case (no_request err)
  then show ?thesis using assms(2,3) by simp
next
  case (not_written err)
  then show ?thesis using assms(2,3) by simp
next
  case (written req)
  then show ?thesis using assms(2,3) by simp
qed

lemma send_iteration_template_kept:
  assumes "send_iteration d enc i env h log = (r, env1, h1, log1)"
    and "baseEvent env = Some b" and "b < top h"
  shows "baseEvent env1 = Some b \<and> cells h1 b = cells h b \<and> b < top h1 \<and>
         IncrementalId env1 = IncrementalId env"
  using assms(1)
  by (cases rule: send_iteration_cases) (rule generator_next_template_kept [OF _ assms(2,3)], assumption)+

lemma send_loop_template_kept:
  assumes "baseEvent env = Some b" and "b < top h"
  shows "baseEvent (generator_of (send_loop n d enc i env h log)) = Some b \<and>
         cells (store_of (send_loop n d enc i env h log)) b = cells h b"
  using assms
proof (induction n arbitrary: i env h log)
  case 0
  then show ?case by (simp add: generator_of_def store_of_def)
next
  case (Suc n)
  obtain r env1 h1 log1 where it: "send_iteration d enc i env h log = (r, env1, h1, log1)"
    by (cases "send_iteration d enc i env h log") auto
  note kept = send_iteration_template_kept [OF it Suc.prems]
  show ?case
  proof (cases r)
    case (Some err)
    with it kept show ?thesis by (simp add: generator_of_def store_of_def)
  next
    case None
    have "baseEvent (generator_of (send_loop n d enc (Suc i) env1 h1 log1)) = Some b \<and>
          cells (store_of (send_loop n d enc (Suc i) env1 h1 log1)) b = cells h1 b"
      using kept by (intro Suc.IH) simp_all
    with it None kept show ?thesis
      by (simp add: generator_of_def store_of_def split: wake.split)
  qed
qed

lemma identified_Nil [simp]: "identified a []"
  by (simp add: identified_def)

lemma identified_sent:
  "identified a log \<Longrightarrow> SentId s = a \<Longrightarrow> (\<And>ev. Event s = Some ev \<Longrightarrow> ev_id ev = a) \<Longrightarrow>
     identified a (log @ [s])"
  by (auto simp: identified_def)

lemma identified_response:
  "Kind r = EventResponse \<Longrightarrow> identified a (log @ [s, r]) = identified a (log @ [s])"
  by (simp add: identified_def)

lemma send_iteration_identified:
  assumes it: "send_iteration d enc i env h log = (r, env1, h1, log1)"
    and b: "baseEvent env = Some b" and "\<not> IncrementalId env"
    and inv: "identified (ev_id (cells h b)) log"
  shows "identified (ev_id (cells h b)) log1"
proof -
  have built: "identified (ev_id (cells h b))
                 (log @ [generator_sentInfo env1 h1 event req err t])"
    if nx: "generator_next d enc (time_Now d i 0) env h = (Inr (req, event), env1, h1)"
    for req event err t
    using nx b
  proof (cases rule: generator_next_with_template)
    case (written req')
    have "ev_id (cells h1 (top h)) = ev_id (cells h b)"
      using written assms(3) by (simp add: built_store_id)
    then show ?thesis
      using written inv
      by (intro identified_sent)
        (auto simp: event_ID_def ID_def sentInfo_Event split: option.splits)
  qed simp_all
  from it show ?thesis
    by (cases rule: send_iteration_cases) (simp_all add: inv built identified_response)
qed

lemma send_loop_identified:
  assumes "baseEvent env = Some b" and "b < top h" and "\<not> IncrementalId env"
    and "identified (ev_id (cells h b)) log"
  shows "identified (ev_id (cells h b)) (outcomes (send_loop n d enc i env h log))"
  using assms
proof (induction n arbitrary: i env h log)
  case 0
  then show ?case by (simp add: outcomes_def)
next
  case (Suc n)
  obtain r env1 h1 log1 where it: "send_iteration d enc i env h log = (r, env1, h1, log1)"
    by (cases "send_iteration d enc i env h log") auto
  note kept = send_iteration_template_kept [OF it Suc.prems(1,2)]
  note ident = send_iteration_identified [OF it Suc.prems(1,3,4)]
  show ?case
  proof (cases r)
    case (Some err)
    with it ident show ?thesis by (simp add: outcomes_def)
  next
    case None
    have "identified (ev_id (cells h1 b)) (outcomes (send_loop n d enc (Suc i) env1 h1 log1))"
      using kept ident Suc.prems(3) by (intro Suc.IH) simp_all
    with it None kept ident show ?thesis
      by (simp add: outcomes_def split: wake.split)
  qed
qed

subsection \<open>Start-up and probing\<close>

lemma new_generator_simps [simp]:
  "baseEvent (new_generator c) = None" "sequence (new_generator c) = 0"
  "Sink (new_generator c) = Sink c" "ProbeSink (new_generator c) = ProbeSink c"
  "ProbeSinkTimeout (new_generator c) = ProbeSinkTimeout c"
  "InputEvent (new_generator c) = InputEvent c" "InputBody (new_generator c) = InputBody c"
  "InputHeaders (new_generator c) = InputHeaders c"
  "EventEncoding (new_generator c) = EventEncoding c" "Period (new_generator c) = Period c"
  "MaxMessages (new_generator c) = MaxMessages c" "AddSequence (new_generator c) = AddSequence c"
  "IncrementalId (new_generator c) = IncrementalId c"
  "InputMethod (new_generator c) = InputMethod c"
  by (simp_all add: new_generator_def)

lemma generator_init_cases:
  assumes "generator_init d (new_generator c) empty_store = Inr (env, h)"
  obtains
    (no_template) "env = new_generator c" "h = empty_store"
      "InputEvent c = [] \<or> json_Unmarshal d (InputEvent c) = Inr None"
  | (template) e where "InputEvent c \<noteq> []" "json_Unmarshal d (InputEvent c) = Inr (Some e)"
      "env = (new_generator c)\<lparr>baseEvent := Some 0\<rparr>"
      "h = \<lparr>cells = (\<lambda>_. zero_event)(0 := e), top = Suc 0\<rparr>"
proof (cases "InputEvent c = []")
  case True
  with assms no_template show thesis
    by (simp add: generator_init_def split: if_splits)
next
  case False
  show thesis
  proof (cases "json_Unmarshal d (InputEvent c)")
    case (Inl err)
    with assms False show thesis by (simp add: generator_init_def)
  next
    case (Inr parsed)
    show thesis
    proof (cases parsed)
      case None
      have "(new_generator c)\<lparr>baseEvent := None\<rparr> = new_generator c"
        by (simp add: new_generator_def)
      with assms False Inr None no_template show thesis
        by (simp add: generator_init_def)
    next
      case (Some e)
      with assms False Inr template show thesis
        by (simp add: generator_init_def new_event_def empty_store_def)
    qed
  qed
qed

lemma generator_init_template:
  assumes "InputEvent c \<noteq> []" "json_Unmarshal d (InputEvent c) = Inr (Some e)"
  shows "generator_init d (new_generator c) empty_store =
           Inr ((new_generator c)\<lparr>baseEvent := Some 0\<rparr>,
                \<lparr>cells = (\<lambda>_. zero_event)(0 := e), top = Suc 0\<rparr>)"
  using assms by (simp add: generator_init_def new_event_def empty_store_def)

lemma Start_cases:
  obtains
    (no_config) c err where "envconfig_Process d = (c, Some err)"
      "Start fuel d = (Done (Failed (EnvconfigFailed err)), new_generator c, empty_store, [])"
  | (no_init) c err where "envconfig_Process d = (c, None)"
      "generator_init d (new_generator c) empty_store = Inl err"
      "Start fuel d = (Done (Failed err), new_generator c, empty_store, [])"
  | (stopped) c env h ex where "envconfig_Process d = (c, None)"
      "generator_init d (new_generator c) empty_store = Inr (env, h)"
      "Start fuel d = (Done ex, env, h, [])" "ex = Panicked \<or> (\<exists>err. ex = Failed err)"
  | (looped) c env h enc where "envconfig_Process d = (c, None)"
      "generator_init d (new_generator c) empty_store = Inr (env, h)"
      "Start fuel d = send_loop fuel d enc 0 env h []"
proof -
  obtain c perr where ec: "envconfig_Process d = (c, perr)"
    by (cases "envconfig_Process d") auto
  show thesis
  proof (cases perr)
    case (Some err)
    with ec no_config show thesis by (simp add: Start_def)
  next
    case None
    show thesis
    proof (cases "generator_init d (new_generator c) empty_store")
      case (Inl err)
      with ec None no_init show thesis by (simp add: Start_def)
    next
      case (Inr p)
      obtain env h where p: "p = (env, h)" by (cases p) auto
      note gi = Inr [unfolded p]
      show thesis
      proof (cases "if ProbeSink env
                    then PollImmediate (probe_attempts d) (probe_condition d env) 0 else None")
        case perr: (Some err)
        with ec None gi stopped [of c env h] show thesis by (simp add: Start_def Let_def)
      next
        case pok: None
        show thesis
        proof (cases "select_encoding (EventEncoding env)")
          case enc: None
          with ec None gi pok stopped [of c env h] show thesis by (simp add: Start_def Let_def)
        next
          case enc: (Some enc)
          show thesis
          proof (cases "Period env * Second \<le>s 0")
            case True
            with ec None gi pok enc stopped [of c env h] show thesis
              by (simp add: Start_def Let_def)
          next
            case False
            with ec None gi pok enc looped show thesis by (simp add: Start_def Let_def)
          qed
        qed
      qed
    qed
  qed
qed

lemma Start_reaches_loop:
  assumes "envconfig_Process d = (c, None)"
    and "generator_init d (new_generator c) empty_store = Inr (env, h)"
    and "ProbeSink env \<longrightarrow> PollImmediate (probe_attempts d) (probe_condition d env) 0 = None"
    and "select_encoding (EventEncoding env) = Some enc"
    and "0 <s Period env * Second"
  shows "Start fuel d = send_loop fuel d enc 0 env h []"
proof -
  have "\<not> Period env * Second \<le>s 0"
    using assms(5) by auto
  then show ?thesis
    using assms(1-4) by (simp add: Start_def Let_def)
qed

lemma PollImmediate_timeout:
  "\<forall>j \<le> n. condition (k + j) = Inr False \<Longrightarrow>
     PollImmediate n condition k = Some ErrWaitTimeout"
proof (induction n arbitrary: k)
  case 0
  then show ?case by (simp add: PollImmediate.simps)
next
  case (Suc n)
  have "condition k = Inr False"
    using Suc.prems [rule_format, of 0] by simp
  moreover have "\<forall>j \<le> n. condition (Suc k + j) = Inr False"
    using Suc.prems by (metis Suc_le_mono add_Suc_shift)
  ultimately show ?case
    using Suc.IH [of "Suc k"] by (simp add: PollImmediate.simps [of "Suc n"])
qed

lemma PollImmediate_answer:
  "j \<le> n \<Longrightarrow> condition (k + j) = Inr True \<Longrightarrow> \<forall>i < j. condition (k + i) = Inr False \<Longrightarrow>
     PollImmediate n condition k = None"
proof (induction j arbitrary: n k)
  case 0
  then show ?case by (simp add: PollImmediate.simps [of n])
next
  case (Suc j)
  obtain m where n: "n = Suc m" and jm: "j \<le> m"
    using Suc.prems(1) by (cases n) auto
  have first: "condition k = Inr False"
    using Suc.prems(3) [rule_format, of 0] by simp
  have "\<forall>i < j. condition (Suc k + i) = Inr False"
    using Suc.prems(3) by (metis Suc_less_eq add_Suc_shift)
  then have "PollImmediate m condition (Suc k) = None"
    using Suc.prems(2) jm by (intro Suc.IH) simp_all
  then show ?case
    using first n by (simp add: PollImmediate.simps [of "Suc m"])
qed

subsection \<open>The request body\<close>

lemma static_overrides_ReqBody:
  "ReqBody (static_overrides d g req) = (if InputBody g \<noteq> [] then Some (InputBody g) else ReqBody req)"
  by (simp add: static_overrides_def Let_def)

subsection \<open>Unfolding the model on the sample world\<close>

lemmas example_defs = example_deps_def example_generator_def example_config_def
  new_generator_def example_store_def example_event_def example_response_def

lemmas sender_defs = send_iteration_def generator_next_def NewRequest_def Clone_def new_event_def
  SetExtension_def SetID_def SetTime_def static_overrides_def Let_def logs_Vent_to_def
  generator_sentInfo_def generator_responseInfo_def event_ID_def ID_def generator_hasNext_def

lemmas start_defs = Start_def generator_init_def empty_store_def select_encoding_def Second_def
  word_sle_eq word_sless_alt status_of_def outcomes_def generator_of_def store_of_def



lemma send_loop_no_template_state:
  assumes "baseEvent env = None"
  shows "generator_of (send_loop n d enc i env h log) = env \<and>
         store_of (send_loop n d enc i env h log) = h"
  using assms
proof (induction n arbitrary: i log)
  case 0
  then show ?case by (simp add: generator_of_def store_of_def)
next
  case (Suc n)
  obtain r env1 h1 log1 where it: "send_iteration d enc i env h log = (r, env1, h1, log1)"
    by (cases "send_iteration d enc i env h log") auto
  have same: "env1 = env" "h1 = h"
    using send_iteration_no_template [OF it Suc.prems] by simp_all
  show ?case
    using it same Suc.IH [OF Suc.prems, of "Suc i" log1]
    by (simp add: generator_of_def store_of_def split: option.split wake.split)
qed

lemma Start_template:
  assumes "baseEvent (generator_of (Start fuel d)) = Some b"
  shows "json_Unmarshal d (InputEvent (fst (envconfig_Process d))) =
           Inr (Some (cells (store_of (Start fuel d)) b))"
proof -
  have init: "json_Unmarshal d (InputEvent c) = Inr (Some (cells h p)) \<and> p < top h"
    if "generator_init d (new_generator c) empty_store = Inr (env, h)"
      and "baseEvent env = Some p" for c env h p
    using that by (cases rule: generator_init_cases) auto
  show ?thesis
  proof (cases fuel d rule: Start_cases)
    case (no_config c err)
    with assms show ?thesis by (simp add: generator_of_def)
  next
    case (no_init c err)
    with assms show ?thesis by (simp add: generator_of_def)
  next
    case (stopped c env h ex)
    with assms init [of c env h b] show ?thesis
      by (simp add: generator_of_def store_of_def)
  next
    case (looped c env h enc)
    show ?thesis
    proof (cases "baseEvent env")
      case None
      then have "baseEvent (generator_of (send_loop fuel d enc 0 env h [])) = None"
        by (simp add: send_loop_no_template_state)
      with assms looped show ?thesis by simp
    next
      case (Some b')
      from init [OF looped(2) Some] have i: "json_Unmarshal d (InputEvent c) = Inr (Some (cells h b'))"
        and lt: "b' < top h" by simp_all
      from send_loop_template_kept [OF Some lt, of fuel d enc 0 "[]"] assms looped i
      show ?thesis by simp
    qed
  qed
qed

lemma generator_next_increments:
  assumes "fst (generator_next d enc t g h) = Inr (req, Some ev)"
  shows "sequence (fst (snd (generator_next d enc t g h))) = sequence g + 1"
proof (cases "NewRequest d (InputMethod g) (Sink g)")
  case (Inl err)
  with assms show ?thesis
    by (simp add: generator_next_no_request)
next
  case (Inr req0)
  show ?thesis
  proof (cases "baseEvent g")
    case None
    with Inr assms show ?thesis
      by (simp add: generator_next_no_template)
  next
    case (Some b)
    with Inr show ?thesis
      by (simp add: generator_next_template split: sum.split)
  qed
qed

lemma Start_sequenced:
  assumes "InputEvent (fst (envconfig_Process d)) \<noteq> []"
    and "json_Unmarshal d (InputEvent (fst (envconfig_Process d))) = Inr (Some e)"
  shows "sequenced (AddSequence (fst (envconfig_Process d))) (outcomes (Start fuel d))"
proof (cases fuel d rule: Start_cases)
  case (no_config c err)
  then show ?thesis by (simp add: outcomes_def)
next
  case (no_init c err)
  then show ?thesis by (simp add: outcomes_def)
next
  case (stopped c env h ex)
  then show ?thesis by (simp add: outcomes_def)
next
  case (looped c env h enc)
  from looped(2) have env: "env = (new_generator c)\<lparr>baseEvent := Some 0\<rparr>"
    using assms looped(1) by (cases rule: generator_init_cases) auto
  have "sequenced (AddSequence env) (outcomes (send_loop fuel d enc 0 env h []))"
    using env by (intro send_loop_sequenced [of env 0]) simp_all
  then show ?thesis
    using looped env by simp
qed

lemma sequenced_unat:
  assumes "map Sequence xs = map of_nat [1..<Suc (length xs)]" and "length xs < 2 ^ 64"
  shows "map (unat \<circ> Sequence) xs = [1..<Suc (length xs)]"
proof -
  have "map (unat \<circ> Sequence) xs = map unat (map Sequence xs)"
    by simp
  also have "\<dots> = map (\<lambda>k. unat (of_nat k :: 64 word)) [1..<Suc (length xs)]"
    using assms(1) by simp
  also have "\<dots> = map (\<lambda>k. k) [1..<Suc (length xs)]"
    using assms(2) by (intro map_cong refl unat_of_nat_small) auto
  finally show ?thesis by simp
qed

lemma generator_next_no_template_sequence:
  assumes "baseEvent g = None"
  shows "sequence (fst (snd (generator_next d enc t g h))) = sequence g"
  using assms
  by (cases "NewRequest d (InputMethod g) (Sink g)")
    (simp_all add: generator_next_no_request generator_next_no_template)

lemma Start_no_template:
  assumes "InputEvent (fst (envconfig_Process d)) = [] \<or>
           json_Unmarshal d (InputEvent (fst (envconfig_Process d))) = Inr None"
    and "0 <s MaxMessages (fst (envconfig_Process d))"
  shows "status_of (Start fuel d) \<noteq> Done MaxReached \<and> sequence (generator_of (Start fuel d)) = 0"
proof (cases fuel d rule: Start_cases)
  case (no_config c err)
  then show ?thesis by (simp add: status_of_def generator_of_def)
next
  case (no_init c err)
  then show ?thesis by (simp add: status_of_def generator_of_def)
next
  case (stopped c env h ex)
  from stopped(2) have "sequence env = 0"
    by (cases rule: generator_init_cases) simp_all
  with stopped show ?thesis by (auto simp: status_of_def generator_of_def)
next
  case (looped c env h enc)
  from looped(2) have env: "env = new_generator c"
    using assms(1) looped(1) by (cases rule: generator_init_cases) auto
  have "status_of (send_loop fuel d enc 0 env h []) \<noteq> Done MaxReached \<and>
        generator_of (send_loop fuel d enc 0 env h []) = env"
    using env assms(2) looped(1) by (intro send_loop_no_template) simp_all
  then show ?thesis
    using looped env by simp
qed

subsection \<open>Start-up with a template\<close>

lemma generator_init_config:
  assumes "generator_init d (new_generator c) empty_store = Inr (env, h)"
  shows "Sink env = Sink c" and "ProbeSink env = ProbeSink c"
    and "ProbeSinkTimeout env = ProbeSinkTimeout c" and "EventEncoding env = EventEncoding c"
    and "Period env = Period c"
  using assms by (cases rule: generator_init_cases; simp)+

lemma probe_condition_transport_error:
  assumes "NewRequest_error d ''HEAD'' (Sink env) = None"
    and "probe_Do d k \<lparr>Method = ''HEAD'', URL = Sink env, Header = Map.empty, ReqBody = None\<rparr> = Inl err"
  shows "probe_condition d env k = Inr False"
  using assms by (simp add: probe_condition_def NewRequest_def)

lemma probe_condition_response:
  assumes "NewRequest_error d ''HEAD'' (Sink env) = None"
    and "probe_Do d k \<lparr>Method = ''HEAD'', URL = Sink env, Header = Map.empty, ReqBody = None\<rparr> = Inr res"
  shows "probe_condition d env k = Inr True"
  using assms by (simp add: probe_condition_def NewRequest_def)

lemma Start_bounded:
  assumes "envconfig_Process d = (c, None)"
    and "InputEvent c \<noteq> []" and "json_Unmarshal d (InputEvent c) = Inr (Some e)"
    and "ProbeSink c \<longrightarrow>
           PollImmediate (probe_attempts d)
             (probe_condition d ((new_generator c)\<lparr>baseEvent := Some 0\<rparr>)) 0 = None"
    and "select_encoding (EventEncoding c) = Some enc"
    and "0 <s Period c * Second"
  shows "Start fuel d =
           send_loop fuel d enc 0 ((new_generator c)\<lparr>baseEvent := Some 0\<rparr>)
             \<lparr>cells = (\<lambda>_. zero_event)(0 := e), top = Suc 0\<rparr> []"
  using assms(4-6)
  by (intro Start_reaches_loop [OF assms(1) generator_init_template [OF assms(2,3)]]) simp_all

subsection \<open>Events in the records\<close>

lemma carried_Nil [simp]: "carried []"
  by (simp add: carried_def)

lemma carried_sent: "carried log \<Longrightarrow> Event s \<noteq> None \<Longrightarrow> carried (log @ [s])"
  by (auto simp: carried_def)

lemma carried_response:
  "Kind r = EventResponse \<Longrightarrow> carried (log @ [s, r]) = carried (log @ [s])"
  by (simp add: carried_def)

lemma send_iteration_carried:
  assumes it: "send_iteration d enc i env h log = (r, env1, h1, log1)"
    and b: "baseEvent env = Some b"
    and answered: "\<forall>tracing k req. \<exists>res. client_Do d tracing k req = Inr res"
    and inv: "carried log"
  shows "carried log1"
proof -
  have built: "carried (log @ [generator_sentInfo env1 h1 event req None t])"
    if nx: "generator_next d enc (time_Now d i 0) env h = (Inr (req, event), env1, h1)"
    for req event t
    using nx b
  proof (cases rule: generator_next_with_template)
    case (written req')
    then show ?thesis
      using inv by (intro carried_sent) (simp_all add: sentInfo_Event)
  qed simp_all
  from it show ?thesis
  proof (cases rule: send_iteration_cases)
    case (transport_error req event e)
    with answered show ?thesis
      by (metis Inl_Inr_False)
  qed (simp_all add: inv built carried_response)
qed

lemma send_loop_carried:
  assumes "baseEvent env = Some b"
    and "\<forall>tracing k req. \<exists>res. client_Do d tracing k req = Inr res"
    and "carried log"
  shows "carried (outcomes (send_loop n d enc i env h log))"
  using assms
proof (induction n arbitrary: i env h log)
  case 0
  then show ?case by (simp add: outcomes_def)
next
  case (Suc n)
  obtain r env1 h1 log1 where it: "send_iteration d enc i env h log = (r, env1, h1, log1)"
    by (cases "send_iteration d enc i env h log") auto
  note c = send_iteration_carried [OF it Suc.prems]
  show ?case
  proof (cases r)
    case (Some err)
    with it c show ?thesis by (simp add: outcomes_def)
  next
    case None
    have b1: "baseEvent env1 = Some b"
      using it Suc.prems(1)
      by (cases rule: send_iteration_cases)
        (auto elim: generator_next_with_template)
    have "carried (outcomes (send_loop n d enc (Suc i) env1 h1 log1))"
      using b1 c Suc.prems(2) by (intro Suc.IH) simp_all
    with it None c show ?thesis
      by (simp add: outcomes_def split: wake.split)
  qed
qed

lemma map_pair_const:
  assumes "length xs = 2" and "\<forall>x \<in> set xs. f x = a"
  shows "map f xs = [a, a]"
proof -
  obtain x y where "xs = [x, y]"
    using assms(1) by (cases xs; cases "tl xs") auto
  with assms(2) show ?thesis by simp
qed

subsection \<open>The numbers of the Response records\<close>

lemma nth_append_two:
  "j < Suc (length log) \<Longrightarrow> (log @ [s, r]) ! j = (log @ [s]) ! j"
  using nth_append [of "log @ [s]" "[r]" j] by simp

lemma take_append_two:
  "j < Suc (length log) \<Longrightarrow> take (Suc j) (log @ [s, r]) = take (Suc j) (log @ [s])"
  using take_append [of "Suc j" "log @ [s]" "[r]"] by simp

lemma paired_Nil [simp]: "paired []"
  by (simp add: paired_def)

lemma paired_sent:
  assumes "paired log" and "Kind s = EventSent"
  shows "paired (log @ [s])"
  unfolding paired_def
proof (intro allI impI)
  fix j
  assume j: "j < length (log @ [s])" and k: "Kind ((log @ [s]) ! j) = EventResponse"
  have lt: "j < length log"
    using j k assms(2) by (cases "j = length log") auto
  then have here: "(log @ [s]) ! j = log ! j" and before: "(log @ [s]) ! (j - 1) = log ! (j - 1)"
    by (simp_all add: nth_append)
  have "Kind (log ! j) = EventResponse"
    using k here by simp
  then have "0 < j \<and> Kind (log ! (j - 1)) = EventSent \<and> Sequence (log ! j) = Sequence (log ! (j - 1))"
    using assms(1) lt unfolding paired_def by blast
  then show "0 < j \<and> Kind ((log @ [s]) ! (j - 1)) = EventSent \<and>
             Sequence ((log @ [s]) ! j) = Sequence ((log @ [s]) ! (j - 1))"
    unfolding here before .
qed

lemma paired_response:
  assumes "paired (log @ [s])" and "Kind s = EventSent" and "Sequence r = Sequence s"
  shows "paired (log @ [s, r])"
  unfolding paired_def
proof (intro allI impI)
  fix j
  assume j: "j < length (log @ [s, r])" and k: "Kind ((log @ [s, r]) ! j) = EventResponse"
  show "0 < j \<and> Kind ((log @ [s, r]) ! (j - 1)) = EventSent \<and>
        Sequence ((log @ [s, r]) ! j) = Sequence ((log @ [s, r]) ! (j - 1))"
  proof (cases "j < Suc (length log)")
    case True
    then have here: "(log @ [s, r]) ! j = (log @ [s]) ! j"
      and before: "(log @ [s, r]) ! (j - 1) = (log @ [s]) ! (j - 1)"
      by (simp_all add: nth_append_two)
    have "Kind ((log @ [s]) ! j) = EventResponse"
      using k here by simp
    moreover have "j < length (log @ [s])"
      using True by simp
    ultimately have "0 < j \<and> Kind ((log @ [s]) ! (j - 1)) = EventSent \<and>
        Sequence ((log @ [s]) ! j) = Sequence ((log @ [s]) ! (j - 1))"
      using assms(1) unfolding paired_def by blast
    then show ?thesis
      unfolding here before .
  next
    case False
    then have "j = Suc (length log)"
      using j by simp
    then show ?thesis
      using assms(2,3) by (simp add: nth_append)
  qed
qed

lemma counted_Nil [simp]: "counted []"
  by (simp add: counted_def)

lemma counted_sent:
  assumes "counted log" and "Kind s = EventSent"
    and "Sequence s = of_nat (length (sent_records log)) + 1"
  shows "counted (log @ [s])"
  unfolding counted_def
proof (intro allI impI)
  fix j
  assume j: "j < length (log @ [s])"
  show "Sequence ((log @ [s]) ! j) = of_nat (length (sent_records (take (Suc j) (log @ [s]))))"
  proof (cases "j < length log")
    case True
    then have "(log @ [s]) ! j = log ! j" and "take (Suc j) (log @ [s]) = take (Suc j) log"
      by (simp_all add: nth_append)
    moreover have "Sequence (log ! j) = of_nat (length (sent_records (take (Suc j) log)))"
      using assms(1) True unfolding counted_def by blast
    ultimately show ?thesis
      by simp
  next
    case False
    then have "j = length log"
      using j by simp
    then show ?thesis
      using assms(2,3) by simp
  qed
qed

lemma counted_response:
  assumes "counted (log @ [s])" and "Kind r = EventResponse" and "Sequence r = Sequence s"
  shows "counted (log @ [s, r])"
  unfolding counted_def
proof (intro allI impI)
  fix j
  assume j: "j < length (log @ [s, r])"
  have "length log < length (log @ [s])"
    by simp
  then have "Sequence ((log @ [s]) ! length log) =
      of_nat (length (sent_records (take (Suc (length log)) (log @ [s]))))"
    using assms(1) unfolding counted_def by blast
  then have last: "Sequence s = of_nat (length (sent_records (log @ [s])))"
    by simp
  show "Sequence ((log @ [s, r]) ! j) =
          of_nat (length (sent_records (take (Suc j) (log @ [s, r]))))"
  proof (cases "j < Suc (length log)")
    case True
    then have here: "(log @ [s, r]) ! j = (log @ [s]) ! j"
      by (rule nth_append_two)
    from True have upto: "take (Suc j) (log @ [s, r]) = take (Suc j) (log @ [s])"
      by (rule take_append_two)
    have "j < length (log @ [s])"
      using True by simp
    then have "Sequence ((log @ [s]) ! j) =
        of_nat (length (sent_records (take (Suc j) (log @ [s]))))"
      using assms(1) unfolding counted_def by blast
    then show ?thesis
      unfolding here upto .
  next
    case False
    then have "j = Suc (length log)"
      using j by simp
    then show ?thesis
      using assms(2,3) last by (simp add: nth_append)
  qed
qed

lemma send_iteration_paired:
  assumes "send_iteration d enc i env h log = (r, env1, h1, log1)" and "paired log"
  shows "paired log1"
  using assms(1)
  by (cases rule: send_iteration_cases)
    (simp_all add: assms(2) paired_sent paired_response)

lemma send_loop_paired:
  assumes "paired log"
  shows "paired (outcomes (send_loop n d enc i env h log))"
  using assms
proof (induction n arbitrary: i env h log)
  case 0
  then show ?case by (simp add: outcomes_def)
next
  case (Suc n)
  obtain r env1 h1 log1 where it: "send_iteration d enc i env h log = (r, env1, h1, log1)"
    by (cases "send_iteration d enc i env h log") auto
  note p = send_iteration_paired [OF it Suc.prems]
  show ?case
  proof (cases r)
    case (Some err)
    with it p show ?thesis by (simp add: outcomes_def)
  next
    case None
    with it p Suc.IH [OF p, of "Suc i" env1 h1] show ?thesis
      by (simp add: outcomes_def split: wake.split)
  qed
qed

lemma Start_paired: "paired (outcomes (Start fuel d))"
proof (cases fuel d rule: Start_cases)
  case (looped c env h enc)
  then show ?thesis by (simp add: send_loop_paired)
qed (simp_all add: outcomes_def)

lemma send_iteration_counted:
  assumes it: "send_iteration d enc i env h log = (r, env1, h1, log1)"
    and b: "baseEvent env = Some b"
    and s: "sequence env = of_nat (length (sent_records log))"
    and inv: "counted log"
  shows "counted log1"
proof -
  have built: "counted (log @ [generator_sentInfo env1 h1 event req err t])"
    if nx: "generator_next d enc (time_Now d i 0) env h = (Inr (req, event), env1, h1)"
    for req event err t
    using nx b
  proof (cases rule: generator_next_with_template)
    case (written req')
    then show ?thesis
      using inv s by (intro counted_sent) simp_all
  qed simp_all
  from it show ?thesis
    by (cases rule: send_iteration_cases) (simp_all add: inv built counted_response)
qed

lemma send_loop_counted:
  assumes "baseEvent env = Some b"
    and "sequence env = of_nat (length (sent_records log))"
    and "counted log"
  shows "counted (outcomes (send_loop n d enc i env h log))"
  using assms
proof (induction n arbitrary: i env h log)
  case 0
  then show ?case by (simp add: outcomes_def)
next
  case (Suc n)
  obtain r env1 h1 log1 where it: "send_iteration d enc i env h log = (r, env1, h1, log1)"
    by (cases "send_iteration d enc i env h log") auto
  note c = send_iteration_counted [OF it Suc.prems]
  show ?case
  proof (cases r)
    case (Some err)
    with it c show ?thesis by (simp add: outcomes_def)
  next
    case None
    have b1: "baseEvent env1 = Some b"
      using it Suc.prems(1)
      by (cases rule: send_iteration_cases) (auto elim: generator_next_with_template)
    have s1: "sequence env1 = of_nat (length (sent_records log1))"
      using it None Suc.prems(1,2)
      by (cases rule: send_iteration_cases) (auto elim!: generator_next_with_template)
    have "counted (outcomes (send_loop n d enc (Suc i) env1 h1 log1))"
      using b1 s1 c by (intro Suc.IH) simp_all
    with it None c show ?thesis
      by (simp add: outcomes_def split: wake.split)
  qed
qed

lemma Start_counted:
  assumes "InputEvent (fst (envconfig_Process d)) \<noteq> []"
    and "json_Unmarshal d (InputEvent (fst (envconfig_Process d))) = Inr (Some e)"
  shows "counted (outcomes (Start fuel d))"
proof (cases fuel d rule: Start_cases)
  case (looped c env h enc)
  from looped(2) have env: "env = (new_generator c)\<lparr>baseEvent := Some 0\<rparr>"
    using assms looped(1) by (cases rule: generator_init_cases) auto
  have "counted (outcomes (send_loop fuel d enc 0 env h []))"
    using env by (intro send_loop_counted [of env 0]) simp_all
  then show ?thesis
    using looped by simp
qed (simp_all add: outcomes_def)

section \<open>The claims\<close>

subsection \<open>The records of an exchange\<close>

text \<open>
  Claim C8. For every call of \<^verbatim>\<open>sentInfo\<close> with a non-nil error the record has kind Sent and
  carries the error string, the sender identity as origin and as observer, the current value
  of the sequence counter, and as sent identifier the id of the event when there is one and
  the empty string otherwise; it carries no event, no headers and no body. The record is
  given in full: next to the fields named it has the time of the call, and the status code
  is left at zero.
\<close>

theorem sentInfo_of_failed_exchange:
  "generator_sentInfo g h event req (Some msg) t =
     \<lparr>Kind = EventSent, Error = msg, Event = None, HTTPHeaders = None, Body = None,
      StatusCode = 0, Origin = SenderName g, Observer = SenderName g, Time = t,
      Sequence = sequence g,
      SentId = (case event of None \<Rightarrow> [] | Some p \<Rightarrow> ev_id (cells h p))\<rparr>"
  by (simp add: generator_sentInfo_def event_ID_def ID_def split: option.split)

text \<open>
  Claim C9. For every call of \<^verbatim>\<open>responseInfo\<close>: when the encoding of the response is unknown,
  the record carries the whole response body as bytes, and a failure to read the body becomes
  the record's error string; when the encoding is known, the response is decoded into an
  event, which the record carries in place of the bytes, and a failure to decode becomes the
  record's error string.
\<close>

theorem responseInfo_body_interpretation:
  "(ReadEncoding d res = EncodingUnknown \<longrightarrow>
      (\<forall>body. RespBody res = Inr body \<longrightarrow>
         Body (generator_responseInfo d g h res event t) = Some body \<and>
         Event (generator_responseInfo d g h res event t) = None \<and>
         Error (generator_responseInfo d g h res event t) = []) \<and>
      (\<forall>err. RespBody res = Inl err \<longrightarrow>
         Error (generator_responseInfo d g h res event t) = err \<and>
         Body (generator_responseInfo d g h res event t) = None \<and>
         Event (generator_responseInfo d g h res event t) = None)) \<and>
   (ReadEncoding d res \<noteq> EncodingUnknown \<longrightarrow>
      (\<forall>ev. ToEvent d res = Inr ev \<longrightarrow>
         Event (generator_responseInfo d g h res event t) = Some ev \<and>
         Body (generator_responseInfo d g h res event t) = None \<and>
         Error (generator_responseInfo d g h res event t) = []) \<and>
      (\<forall>err. ToEvent d res = Inl err \<longrightarrow>
         Error (generator_responseInfo d g h res event t) = err \<and>
         Event (generator_responseInfo d g h res event t) = None \<and>
         Body (generator_responseInfo d g h res event t) = None))"
  by (simp add: generator_responseInfo_def Let_def)

theorem responseInfo_body_interpretation_witness:
  "ReadEncoding (example_deps (example_config 1)) example_response = EncodingUnknown \<and>
   RespBody example_response = Inr ''ok'' \<and>
   Body (generator_responseInfo (example_deps (example_config 1)) example_generator example_store
          example_response (Some 0) 2) = Some ''ok'' \<and>
   RespBody (example_response\<lparr>RespBody := Inl ''unexpected EOF''\<rparr>) = Inl ''unexpected EOF'' \<and>
   Error (generator_responseInfo (example_deps (example_config 1)) example_generator example_store
          (example_response\<lparr>RespBody := Inl ''unexpected EOF''\<rparr>) (Some 0) 2) = ''unexpected EOF'' \<and>
   ReadEncoding ((example_deps (example_config 1))\<lparr>ReadEncoding := \<lambda>res. EncodingStructured,
       ToEvent := \<lambda>res. Inr example_event\<rparr>) example_response \<noteq> EncodingUnknown \<and>
   Event (generator_responseInfo ((example_deps (example_config 1))\<lparr>ReadEncoding := \<lambda>res. EncodingStructured,
       ToEvent := \<lambda>res. Inr example_event\<rparr>) example_generator example_store
          example_response (Some 0) 2) = Some example_event \<and>
   Error (generator_responseInfo ((example_deps (example_config 1))\<lparr>ReadEncoding := \<lambda>res. EncodingBinary\<rparr>)
          example_generator example_store example_response (Some 0) 2) = ''unknown encoding''"
  using
    responseInfo_body_interpretation [of "example_deps (example_config 1)" example_response
      example_generator example_store "Some 0" 2]
    responseInfo_body_interpretation [of "example_deps (example_config 1)"
      "example_response\<lparr>RespBody := Inl ''unexpected EOF''\<rparr>" example_generator example_store "Some 0" 2]
    responseInfo_body_interpretation [of "(example_deps (example_config 1))\<lparr>ReadEncoding := \<lambda>res. EncodingStructured,
       ToEvent := \<lambda>res. Inr example_event\<rparr>" example_response example_generator example_store "Some 0" 2]
    responseInfo_body_interpretation [of "(example_deps (example_config 1))\<lparr>ReadEncoding := \<lambda>res. EncodingBinary\<rparr>"
      example_response example_generator example_store "Some 0" 2]
  by (simp add: example_deps_def example_response_def)

subsection \<open>The static body\<close>

text \<open>
  Claim C4. If a static body is configured, every request that \<^verbatim>\<open>next\<close> returns has exactly the
  static body as its body, in binary and in structured mode, whether or not an event was
  encoded into the request and whatever the encoder wrote.
\<close>

theorem static_body_replaces_request_body:
  assumes "InputBody g \<noteq> []" and "fst (generator_next d enc t g h) = Inr (req, event)"
  shows "ReqBody req = Some (InputBody g)"
proof (cases "NewRequest d (InputMethod g) (Sink g)")
  case (Inl err)
  with assms(2) show ?thesis
    by (simp add: generator_next_no_request)
next
  case (Inr req0)
  show ?thesis
  proof (cases "baseEvent g")
    case None
    with Inr assms show ?thesis
      by (auto simp: generator_next_no_template static_overrides_ReqBody)
  next
    case (Some b)
    with Inr assms show ?thesis
      by (auto simp: generator_next_template static_overrides_ReqBody split: sum.splits)
  qed
qed

theorem static_body_replaces_request_body_witness:
  "InputBody (example_generator\<lparr>InputBody := ''static''\<rparr>) \<noteq> [] \<and>
   fst (generator_next (example_deps (example_config 1)) Structured 0
          (example_generator\<lparr>InputBody := ''static''\<rparr>) example_store) =
     Inr (\<lparr>Method = ''POST'', URL = ''http://X'', Header = Map.empty, ReqBody = Some ''static''\<rparr>,
          Some 1) \<and>
   ReqBody \<lparr>Method = ''POST'', URL = ''http://X'', Header = Map.empty, ReqBody = Some ''static''\<rparr> =
     Some (InputBody (example_generator\<lparr>InputBody := ''static''\<rparr>))"
proof -
  have b: "InputBody (example_generator\<lparr>InputBody := ''static''\<rparr>) \<noteq> []"
    by simp
  have nx: "fst (generator_next (example_deps (example_config 1)) Structured 0
          (example_generator\<lparr>InputBody := ''static''\<rparr>) example_store) =
     Inr (\<lparr>Method = ''POST'', URL = ''http://X'', Header = Map.empty, ReqBody = Some ''static''\<rparr>,
          Some 1)"
    by (simp add: generator_next_def NewRequest_def example_deps_def example_generator_def
        example_config_def new_generator_def example_store_def Clone_def new_event_def
        SetExtension_def static_overrides_def Let_def)
  show ?thesis
    using b nx static_body_replaces_request_body [OF b nx] by simp
qed


subsection \<open>The order of the records\<close>



subsection \<open>The template\<close>

text \<open>
  Claim C7. The template event is never written after initialisation. A call of \<^verbatim>\<open>next\<close> copies
  the template to a fresh address and applies the overrides to the copy: the template pointer
  and the event it points to are the same before and after the call, and so they are after
  any number of iterations of the loop. At every point of every run the template pointer, if
  it is set, points to the event exactly as \<^verbatim>\<open>json.Unmarshal\<close> produced it.
\<close>

theorem template_never_mutated:
  "(baseEvent g = Some b \<and> b < top h \<longrightarrow>
      baseEvent (fst (snd (generator_next d enc t g h))) = Some b \<and>
      cells (snd (snd (generator_next d enc t g h))) b = cells h b \<and>
      baseEvent (generator_of (send_loop n d enc i g h log)) = Some b \<and>
      cells (store_of (send_loop n d enc i g h log)) b = cells h b) \<and>
   (\<forall>p. baseEvent (generator_of (Start fuel d)) = Some p \<longrightarrow>
      json_Unmarshal d (InputEvent (fst (envconfig_Process d))) =
        Inr (Some (cells (store_of (Start fuel d)) p)))"
proof -
  have "baseEvent (fst (snd (generator_next d enc t g h))) = Some b \<and>
        cells (snd (snd (generator_next d enc t g h))) b = cells h b"
    if "baseEvent g = Some b" "b < top h"
    using generator_next_template_kept [OF _ that, of d enc t]
    by (cases "generator_next d enc t g h") simp
  then show ?thesis
    using send_loop_template_kept [of g b h n d enc i log] Start_template [of fuel d]
    by blast
qed

theorem template_never_mutated_witness:
  "baseEvent example_generator = Some 0 \<and> 0 < top example_store \<and>
   cells (snd (snd (generator_next (example_deps (example_config 1)) Binary 7
                      example_generator example_store))) 0 = example_event \<and>
   cells (store_of (send_loop 2 (example_deps (example_config 1)) Binary 0
                      example_generator example_store [])) 0 = example_event \<and>
   baseEvent (generator_of (Start 2 (example_deps (example_config 1)))) = Some 0 \<and>
   cells (store_of (Start 2 (example_deps (example_config 1)))) 0 = example_event"
proof -
  have g: "baseEvent example_generator = Some 0" and h: "0 < top example_store"
    by (simp_all add: example_generator_def example_store_def)
  have c: "cells example_store 0 = example_event"
    by (simp add: example_store_def)
  have s: "baseEvent (generator_of (Start 2 (example_deps (example_config 1)))) = Some 0"
    by (simp add: example_defs start_defs sender_defs numeral_2_eq_2)
  have u: "json_Unmarshal (example_deps (example_config 1))
             (InputEvent (fst (envconfig_Process (example_deps (example_config 1))))) =
           Inr (Some example_event)"
    by (simp add: example_deps_def example_config_def)
  show ?thesis
    using g h c s u
      template_never_mutated [of example_generator 0 example_store
        "example_deps (example_config 1)" Binary 7 2 0 "[]" 2]
    by simp
qed

subsection \<open>Sequence numbers\<close>

text \<open>
  Claim C1. In every run with a template event configured the sequence counter starts at 0
  and each call of \<^verbatim>\<open>next\<close> that returns a templated event has incremented it by exactly one,
  so the sequence numbers of the Sent records of the run, in the order they were published,
  are exactly 1, 2, ..., N, with no gap and no repeat, and the event a Sent record carries has
  the record's number as its \<open>sequence\<close> extension when the extension is asked for. The
  Response records carry the same numbers: a Response record stands directly after the Sent
  record of its iteration and has that record's number, and every record of the run, Sent or
  Response, has the number of Sent records published up to it. The statement holds for every
  world and at every point of the run, however the run ends. The numbers are the \<^verbatim>\<open>uint64\<close>
  values the records hold; read as natural numbers they are 1 to N for every N a \<^verbatim>\<open>uint64\<close>
  can hold.
\<close>

theorem sequence_numbers_count_from_one:
  assumes "InputEvent (fst (envconfig_Process d)) \<noteq> []"
    and "json_Unmarshal d (InputEvent (fst (envconfig_Process d))) = Inr (Some e)"
  shows "sequence (new_generator (fst (envconfig_Process d))) = 0 \<and>
         (\<forall>g h enc t req ev. fst (generator_next d enc t g h) = Inr (req, Some ev) \<longrightarrow>
            sequence (fst (snd (generator_next d enc t g h))) = sequence g + 1) \<and>
         map Sequence (sent_records (outcomes (Start fuel d))) =
           map of_nat [1..<Suc (length (sent_records (outcomes (Start fuel d))))] \<and>
         (length (sent_records (outcomes (Start fuel d))) < 2 ^ 64 \<longrightarrow>
            map (unat \<circ> Sequence) (sent_records (outcomes (Start fuel d))) =
              [1..<Suc (length (sent_records (outcomes (Start fuel d))))]) \<and>
         (AddSequence (fst (envconfig_Process d)) \<longrightarrow>
            (\<forall>s \<in> set (sent_records (outcomes (Start fuel d))). \<forall>ev. Event s = Some ev \<longrightarrow>
               ev_extensions ev ''sequence'' = Some (ExtInt (sint (Sequence s))))) \<and>
         (\<forall>j < length (outcomes (Start fuel d)).
            Kind (outcomes (Start fuel d) ! j) = EventResponse \<longrightarrow>
              0 < j \<and> Kind (outcomes (Start fuel d) ! (j - 1)) = EventSent \<and>
              Sequence (outcomes (Start fuel d) ! j) =
                Sequence (outcomes (Start fuel d) ! (j - 1))) \<and>
         (\<forall>j < length (outcomes (Start fuel d)).
            Sequence (outcomes (Start fuel d) ! j) =
              of_nat (length (sent_records (take (Suc j) (outcomes (Start fuel d))))))"
proof -
  note seq = Start_sequenced [OF assms, of fuel, unfolded sequenced_def]
  from seq have numbered: "map Sequence (sent_records (outcomes (Start fuel d))) =
      map of_nat [1..<Suc (length (sent_records (outcomes (Start fuel d))))]"
    by simp
  note responses = Start_paired [of fuel d, unfolded paired_def]
  note every = Start_counted [OF assms, of fuel, unfolded counted_def]
  have first: "sequence (new_generator (fst (envconfig_Process d))) = 0 \<and>
         (\<forall>g h enc t req ev. fst (generator_next d enc t g h) = Inr (req, Some ev) \<longrightarrow>
            sequence (fst (snd (generator_next d enc t g h))) = sequence g + 1) \<and>
         map Sequence (sent_records (outcomes (Start fuel d))) =
           map of_nat [1..<Suc (length (sent_records (outcomes (Start fuel d))))] \<and>
         (length (sent_records (outcomes (Start fuel d))) < 2 ^ 64 \<longrightarrow>
            map (unat \<circ> Sequence) (sent_records (outcomes (Start fuel d))) =
              [1..<Suc (length (sent_records (outcomes (Start fuel d))))]) \<and>
         (AddSequence (fst (envconfig_Process d)) \<longrightarrow>
            (\<forall>s \<in> set (sent_records (outcomes (Start fuel d))). \<forall>ev. Event s = Some ev \<longrightarrow>
               ev_extensions ev ''sequence'' = Some (ExtInt (sint (Sequence s)))))"
    using seq numbered sequenced_unat [OF numbered] generator_next_increments [of d]
    by simp
  show ?thesis
    using first responses every by (intro conjI) (elim conjE, assumption)+
qed

theorem sequence_numbers_count_from_one_witness:
  "InputEvent (fst (envconfig_Process (example_deps (example_config 1)))) \<noteq> [] \<and>
   json_Unmarshal (example_deps (example_config 1))
     (InputEvent (fst (envconfig_Process (example_deps (example_config 1))))) =
     Inr (Some example_event) \<and>
   map (unat \<circ> Sequence) (sent_records (outcomes (Start (Suc (Suc 0)) (example_deps (example_config 1))))) =
     [1, 2] \<and>
   map (\<lambda>s. map_option (\<lambda>ev. ev_extensions ev ''sequence'') (Event s))
     (sent_records (outcomes (Start (Suc (Suc 0)) (example_deps (example_config 1))))) =
     [Some (Some (ExtInt 1)), Some (Some (ExtInt 2))] \<and>
   map Kind (outcomes (Start (Suc (Suc 0)) (example_deps (example_config 1)))) =
     [EventSent, EventResponse, EventSent, EventResponse] \<and>
   map Sequence (outcomes (Start (Suc (Suc 0)) (example_deps (example_config 1)))) =
     [1, 1, 2, 2]"
proof -
  have i: "InputEvent (fst (envconfig_Process (example_deps (example_config 1)))) \<noteq> []"
    by (simp add: example_deps_def example_config_def)
  have u: "json_Unmarshal (example_deps (example_config 1))
     (InputEvent (fst (envconfig_Process (example_deps (example_config 1))))) =
     Inr (Some example_event)"
    by (simp add: example_deps_def example_config_def)
  have "map (unat \<circ> Sequence)
          (sent_records (outcomes (Start (Suc (Suc 0)) (example_deps (example_config 1))))) = [1, 2]"
    by (simp add: example_defs start_defs sender_defs)
  moreover have "map (\<lambda>s. map_option (\<lambda>ev. ev_extensions ev ''sequence'') (Event s))
     (sent_records (outcomes (Start (Suc (Suc 0)) (example_deps (example_config 1))))) =
     [Some (Some (ExtInt 1)), Some (Some (ExtInt 2))]"
    by (simp add: example_defs start_defs sender_defs)
  moreover have "map Kind (outcomes (Start (Suc (Suc 0)) (example_deps (example_config 1)))) =
     [EventSent, EventResponse, EventSent, EventResponse]"
    by (simp add: example_defs start_defs sender_defs)
  moreover have "map Sequence (outcomes (Start (Suc (Suc 0)) (example_deps (example_config 1)))) =
     [1, 1, 2, 2]"
    by (simp add: example_defs start_defs sender_defs)
  ultimately show ?thesis
    using i u sequence_numbers_count_from_one [OF i u, of "Suc (Suc 0)"] by simp
qed

subsection \<open>A sender without a template\<close>

text \<open>
  Claim C3. If no base event is configured (the template pointer is nil), \<^verbatim>\<open>next\<close> never
  increments the sequence counter, so the counter is 0 after every iteration; for every
  MaxMessages above 0 \<^verbatim>\<open>hasNext\<close> then returns true each time, and the count never ends the
  run: the loop returns only on a fatal error or when the context is closed, and where neither
  happens it is still running after any number of iterations, with one Sent record for each.
  The last part is the same for a whole run of \<^verbatim>\<open>Start\<close> whose configuration has no event.
\<close>

theorem no_template_never_reaches_max:
  "(baseEvent env = None \<longrightarrow>
      sequence (fst (snd (generator_next d enc t env h))) = sequence env) \<and>
   (baseEvent env = None \<and> sequence env = 0 \<and> 0 <s MaxMessages env \<longrightarrow>
      generator_hasNext env \<and>
      status_of (send_loop n d enc i env h log) \<noteq> Done MaxReached \<and>
      sequence (generator_of (send_loop n d enc i env h log)) = 0 \<and>
      (NewRequest_error d (InputMethod env) (Sink env) = None \<and>
       (\<forall>k info. logs_Vent d k info = None) \<and> (\<forall>j. select_wake d j = Tick) \<longrightarrow>
         status_of (send_loop n d enc i env h log) = Running \<and>
         length (sent_records (outcomes (send_loop n d enc i env h log))) =
           length (sent_records log) + n)) \<and>
   ((InputEvent (fst (envconfig_Process d)) = [] \<or>
     json_Unmarshal d (InputEvent (fst (envconfig_Process d))) = Inr None) \<and>
    0 <s MaxMessages (fst (envconfig_Process d)) \<longrightarrow>
      status_of (Start fuel d) \<noteq> Done MaxReached \<and>
      sequence (generator_of (Start fuel d)) = 0)"
proof -
  have loop: "generator_hasNext env \<and>
      status_of (send_loop n d enc i env h log) \<noteq> Done MaxReached \<and>
      sequence (generator_of (send_loop n d enc i env h log)) = 0"
    if "baseEvent env = None" "sequence env = 0" "0 <s MaxMessages env"
    using that send_loop_no_template [of env n d enc i h log] hasNext_zero [of env]
    by simp
  have unbounded: "status_of (send_loop n d enc i env h log) = Running \<and>
         length (sent_records (outcomes (send_loop n d enc i env h log))) =
           length (sent_records log) + n"
    if "baseEvent env = None" "sequence env = 0" "0 <s MaxMessages env"
      "NewRequest_error d (InputMethod env) (Sink env) = None"
      "\<forall>k info. logs_Vent d k info = None" "\<forall>j. select_wake d j = Tick"
    using that by (intro send_loop_no_template_unbounded) simp_all
  show ?thesis
    using generator_next_no_template_sequence [of env d enc t h] loop unbounded
      Start_no_template [of d fuel]
    by blast
qed

theorem no_template_never_reaches_max_witness:
  "InputEvent (fst (envconfig_Process (example_deps
      ((example_config 1)\<lparr>InputEvent := [], InputBody := ''ping'', MaxMessages := 1\<rparr>)))) = [] \<and>
   0 <s MaxMessages (fst (envconfig_Process (example_deps
      ((example_config 1)\<lparr>InputEvent := [], InputBody := ''ping'', MaxMessages := 1\<rparr>)))) \<and>
   status_of (Start (Suc (Suc (Suc 0))) (example_deps
      ((example_config 1)\<lparr>InputEvent := [], InputBody := ''ping'', MaxMessages := 1\<rparr>))) = Running \<and>
   map Sequence (sent_records (outcomes (Start (Suc (Suc (Suc 0))) (example_deps
      ((example_config 1)\<lparr>InputEvent := [], InputBody := ''ping'', MaxMessages := 1\<rparr>))))) =
     [0, 0, 0] \<and>
   sequence (generator_of (Start (Suc (Suc (Suc 0))) (example_deps
      ((example_config 1)\<lparr>InputEvent := [], InputBody := ''ping'', MaxMessages := 1\<rparr>)))) = 0"
proof -
  let ?d = "example_deps
      ((example_config 1)\<lparr>InputEvent := [], InputBody := ''ping'', MaxMessages := 1\<rparr>)"
  have i: "InputEvent (fst (envconfig_Process ?d)) = []"
    by (simp add: example_deps_def example_config_def)
  have m: "0 <s MaxMessages (fst (envconfig_Process ?d))"
    by (simp add: example_deps_def example_config_def word_sless_alt)
  have "status_of (Start (Suc (Suc (Suc 0))) ?d) = Running"
    by (simp add: example_defs start_defs sender_defs)
  moreover have "map Sequence (sent_records (outcomes (Start (Suc (Suc (Suc 0))) ?d))) = [0, 0, 0]"
    by (simp add: example_defs start_defs sender_defs)
  ultimately show ?thesis
    using i m
      no_template_never_reaches_max [of "new_generator (fst (envconfig_Process ?d))" ?d Binary 0
        empty_store 3 0 "[]" "Suc (Suc (Suc 0))"]
    by simp
qed

subsection \<open>Probing\<close>

text \<open>
  Claim C10. If probing is enabled and every probe fails at the transport level until the
  timeout has elapsed, the run ends with a fatal error that names the sink and the timeout,
  and no outcome record is produced; any HTTP response to a probe, whatever its status code,
  makes the check succeed, and the first one ends the probing: \<^verbatim>\<open>Start\<close> goes on to select the
  encoding and to the loop.
\<close>

theorem probe_gates_the_run:
  assumes "envconfig_Process d = (c, None)"
    and "generator_init d (new_generator c) empty_store = Inr (env, h)"
    and "ProbeSink c"
    and "NewRequest_error d ''HEAD'' (Sink c) = None"
  shows "((\<forall>k \<le> probe_attempts d. \<exists>err.
             probe_Do d k \<lparr>Method = ''HEAD'', URL = Sink c, Header = Map.empty, ReqBody = None\<rparr> =
               Inl err) \<longrightarrow>
            Start fuel d =
              (Done (Failed (ProbeFailed (Sink c) (ProbeSinkTimeout c * Second) ErrWaitTimeout)),
               env, h, [])) \<and>
         (\<forall>k res.
            probe_Do d k \<lparr>Method = ''HEAD'', URL = Sink c, Header = Map.empty, ReqBody = None\<rparr> =
              Inr res \<longrightarrow>
            probe_condition d env k = Inr True) \<and>
         (\<forall>j \<le> probe_attempts d.
            (\<exists>res. probe_Do d j
                \<lparr>Method = ''HEAD'', URL = Sink c, Header = Map.empty, ReqBody = None\<rparr> = Inr res) \<and>
            (\<forall>i < j. \<exists>err. probe_Do d i
                \<lparr>Method = ''HEAD'', URL = Sink c, Header = Map.empty, ReqBody = None\<rparr> = Inl err) \<longrightarrow>
            PollImmediate (probe_attempts d) (probe_condition d env) 0 = None \<and>
            Start fuel d =
              (case select_encoding (EventEncoding c) of
                 None \<Rightarrow> (Done (Failed (UnsupportedEncoding (EventEncoding c))), env, h, [])
               | Some enc \<Rightarrow>
                   if Period c * Second \<le>s 0 then (Done Panicked, env, h, [])
                   else send_loop fuel d enc 0 env h []))"
proof -
  note cfg = generator_init_config [OF assms(2)]
  let ?req = "\<lparr>Method = ''HEAD'', URL = Sink c, Header = Map.empty, ReqBody = None\<rparr>"
  have nr: "NewRequest_error d ''HEAD'' (Sink env) = None"
    using assms(4) cfg by simp
  have timeout: "Start fuel d =
      (Done (Failed (ProbeFailed (Sink c) (ProbeSinkTimeout c * Second) ErrWaitTimeout)),
       env, h, [])"
    if "\<forall>k \<le> probe_attempts d. \<exists>err. probe_Do d k ?req = Inl err"
  proof -
    have "\<forall>k \<le> probe_attempts d. probe_condition d env (0 + k) = Inr False"
      using that probe_condition_transport_error [OF nr] cfg(1) by auto
    then have "PollImmediate (probe_attempts d) (probe_condition d env) 0 = Some ErrWaitTimeout"
      by (rule PollImmediate_timeout)
    then show ?thesis
      using assms(1-3) cfg by (simp add: Start_def Let_def)
  qed
  have answer: "probe_condition d env k = Inr True" if "probe_Do d k ?req = Inr res" for k res
    using that probe_condition_response [OF nr] cfg(1) by simp
  have through: "PollImmediate (probe_attempts d) (probe_condition d env) 0 = None \<and>
      Start fuel d =
        (case select_encoding (EventEncoding c) of
           None \<Rightarrow> (Done (Failed (UnsupportedEncoding (EventEncoding c))), env, h, [])
         | Some enc \<Rightarrow>
             if Period c * Second \<le>s 0 then (Done Panicked, env, h, [])
             else send_loop fuel d enc 0 env h [])"
    if "j \<le> probe_attempts d" and "\<exists>res. probe_Do d j ?req = Inr res"
      and "\<forall>i < j. \<exists>err. probe_Do d i ?req = Inl err" for j
  proof -
    have "probe_condition d env (0 + j) = Inr True"
      using that(2) answer by auto
    moreover have "\<forall>i < j. probe_condition d env (0 + i) = Inr False"
      using that(3) probe_condition_transport_error [OF nr] cfg(1) by auto
    ultimately have p: "PollImmediate (probe_attempts d) (probe_condition d env) 0 = None"
      using that(1) by (intro PollImmediate_answer [of j])
    then show ?thesis
      using assms(1-3) cfg by (simp add: Start_def Let_def split: option.split)
  qed
  show ?thesis
    using timeout answer through by blast
qed

theorem probe_gates_the_run_witness:
  "envconfig_Process (example_deps ((example_config 1)\<lparr>ProbeSink := True\<rparr>)) =
     ((example_config 1)\<lparr>ProbeSink := True\<rparr>, None) \<and>
   ProbeSink ((example_config 1)\<lparr>ProbeSink := True\<rparr>) \<and>
   probe_attempts (example_deps ((example_config 1)\<lparr>ProbeSink := True\<rparr>)) = 2 \<and>
   map (\<lambda>k. probe_Do (example_deps ((example_config 1)\<lparr>ProbeSink := True\<rparr>)) k
              \<lparr>Method = ''HEAD'', URL = ''http://X'', Header = Map.empty, ReqBody = None\<rparr>)
     [0, 1, 2] =
     [Inl ''connection refused'', Inl ''connection refused'', Inl ''connection refused''] \<and>
   status_of (Start 2 (example_deps ((example_config 1)\<lparr>ProbeSink := True\<rparr>))) =
     Done (Failed (ProbeFailed ''http://X'' 60000000000 ''timed out waiting for the condition'')) \<and>
   outcomes (Start 2 (example_deps ((example_config 1)\<lparr>ProbeSink := True\<rparr>))) = [] \<and>
   probe_condition
     ((example_deps ((example_config 1)\<lparr>ProbeSink := True\<rparr>))
        \<lparr>probe_Do := \<lambda>k req. if k < 2 then Inl ''connection refused''
                               else Inr (example_response\<lparr>RespStatusCode := 503\<rparr>)\<rparr>)
     ((new_generator ((example_config 1)\<lparr>ProbeSink := True\<rparr>))\<lparr>baseEvent := Some 0\<rparr>) 2 = Inr True \<and>
   PollImmediate 2 (probe_condition
     ((example_deps ((example_config 1)\<lparr>ProbeSink := True\<rparr>))
        \<lparr>probe_Do := \<lambda>k req. if k < 2 then Inl ''connection refused''
                               else Inr (example_response\<lparr>RespStatusCode := 503\<rparr>)\<rparr>)
     ((new_generator ((example_config 1)\<lparr>ProbeSink := True\<rparr>))\<lparr>baseEvent := Some 0\<rparr>)) 0 = None"
proof -
  let ?c = "(example_config 1)\<lparr>ProbeSink := True\<rparr>"
  let ?d = "example_deps ?c"
  let ?d' = "?d\<lparr>probe_Do := \<lambda>k req. if k < 2 then Inl ''connection refused''
                               else Inr (example_response\<lparr>RespStatusCode := 503\<rparr>)\<rparr>"
  let ?env = "(new_generator ?c)\<lparr>baseEvent := Some 0\<rparr>"
  have e: "envconfig_Process ?d = (?c, None)" and e': "envconfig_Process ?d' = (?c, None)"
    by (simp_all add: example_deps_def)
  have i: "generator_init ?d (new_generator ?c) empty_store = Inr (?env, example_store)"
    and i': "generator_init ?d' (new_generator ?c) empty_store = Inr (?env, example_store)"
    by (simp_all add: example_deps_def example_config_def example_store_def
        generator_init_template)
  have p: "ProbeSink ?c"
    by simp
  have n: "NewRequest_error ?d ''HEAD'' (Sink ?c) = None"
    and n': "NewRequest_error ?d' ''HEAD'' (Sink ?c) = None"
    by (simp_all add: example_deps_def)
  have s: "Sink ?c = ''http://X''" "ProbeSinkTimeout ?c * Second = 60000000000"
    by (simp_all add: example_config_def Second_def)
  have t: "\<forall>k \<le> probe_attempts ?d. \<exists>err.
      probe_Do ?d k \<lparr>Method = ''HEAD'', URL = ''http://X'', Header = Map.empty, ReqBody = None\<rparr> =
        Inl err"
    by (simp add: example_deps_def)
  have a: "probe_attempts ?d' = 2"
    "\<exists>res. probe_Do ?d' 2
        \<lparr>Method = ''HEAD'', URL = Sink ?c, Header = Map.empty, ReqBody = None\<rparr> = Inr res"
    "\<forall>i < 2. \<exists>err. probe_Do ?d' i
        \<lparr>Method = ''HEAD'', URL = Sink ?c, Header = Map.empty, ReqBody = None\<rparr> = Inl err"
    by (simp_all add: example_deps_def)
  have l: "probe_attempts ?d = 2"
    "map (\<lambda>k. probe_Do ?d k
              \<lparr>Method = ''HEAD'', URL = ''http://X'', Header = Map.empty, ReqBody = None\<rparr>)
       [0, 1, 2] =
       [Inl ''connection refused'', Inl ''connection refused'', Inl ''connection refused'']"
    by (simp_all add: example_deps_def)
  show ?thesis
    using e p t s a l
      probe_gates_the_run [OF e i p n, of 2]
      probe_gates_the_run [OF e' i' p n', of 2]
    by (auto simp: status_of_def outcomes_def ErrWaitTimeout_def)
qed

subsection \<open>Runs bounded by the message count\<close>

text \<open>
  Claim C2, as amended. The claim as stated is: for every run with max-messages K above 0,
  exactly K Sent records and at most K Response records are produced, and then the run ends
  with no error. It holds for a run that has a template event, gets through start-up
  (the configuration is read, probing passes or is off, the encoding is known, the period is
  positive), meets no fatal error (requests can be built and encoded, the outcome sink takes
  every record) and whose context is not closed before the K-th iteration: such a run returns
  through \<^verbatim>\<open>hasNext\<close> after K iterations, with K Sent records, at most K Response records and
  no error.
\<close>

theorem bounded_run_sends_K_messages:
  assumes "envconfig_Process d = (c, None)"
    and "InputEvent c \<noteq> []" and "json_Unmarshal d (InputEvent c) = Inr (Some e)"
    and "ProbeSink c \<longrightarrow>
           PollImmediate (probe_attempts d)
             (probe_condition d ((new_generator c)\<lparr>baseEvent := Some 0\<rparr>)) 0 = None"
    and "select_encoding (EventEncoding c) = Some enc"
    and "0 <s Period c * Second"
    and "0 <s MaxMessages c"
    and "NewRequest_error d (InputMethod c) (Sink c) = None"
    and "\<forall>ev req. \<exists>req'. WriteRequest d enc ev req = Inr req'"
    and "\<forall>k info. logs_Vent d k info = None"
    and "\<forall>j. Suc j < nat (sint (MaxMessages c)) \<longrightarrow> select_wake d j = Tick"
    and "nat (sint (MaxMessages c)) \<le> fuel"
  shows "status_of (Start fuel d) = Done MaxReached \<and> returned_error MaxReached = None \<and>
         length (sent_records (outcomes (Start fuel d))) = nat (sint (MaxMessages c)) \<and>
         length (response_records (outcomes (Start fuel d))) \<le> nat (sint (MaxMessages c))"
proof -
  let ?env = "(new_generator c)\<lparr>baseEvent := Some 0\<rparr>"
  let ?h = "\<lparr>cells = (\<lambda>_. zero_event)(0 := e), top = Suc 0\<rparr>"
  have run: "Start fuel d = send_loop fuel d enc 0 ?env ?h []"
    by (rule Start_bounded [OF assms(1-6)])
  have "status_of (send_loop fuel d enc 0 ?env ?h []) = Done MaxReached \<and>
        length (sent_records (outcomes (send_loop fuel d enc 0 ?env ?h []))) =
          length (sent_records []) + (nat (sint (MaxMessages ?env)) - 0) \<and>
        length (response_records (outcomes (send_loop fuel d enc 0 ?env ?h []))) \<le>
          length (response_records []) + (nat (sint (MaxMessages ?env)) - 0) \<and>
        sequence (generator_of (send_loop fuel d enc 0 ?env ?h [])) = MaxMessages ?env"
    using assms(7-12) positive_nat_sint [OF assms(7)]
    by (intro send_loop_counts [of ?env 0]) simp_all
  then show ?thesis
    using run by simp
qed


theorem bounded_run_sends_K_messages_witness:
  "envconfig_Process (example_deps (example_config 1)) = (example_config 1, None) \<and>
   InputEvent (example_config 1) \<noteq> [] \<and>
   json_Unmarshal (example_deps (example_config 1)) (InputEvent (example_config 1)) =
     Inr (Some example_event) \<and>
   \<not> ProbeSink (example_config 1) \<and>
   select_encoding (EventEncoding (example_config 1)) = Some Binary \<and>
   0 <s Period (example_config 1) * Second \<and>
   0 <s MaxMessages (example_config 1) \<and>
   nat (sint (MaxMessages (example_config 1))) = 2 \<and>
   status_of (Start 2 (example_deps (example_config 1))) = Done MaxReached \<and>
   length (sent_records (outcomes (Start 2 (example_deps (example_config 1))))) = 2 \<and>
   length (response_records (outcomes (Start 2 (example_deps (example_config 1))))) \<le> 2"
proof -
  let ?c = "example_config 1"
  let ?d = "example_deps ?c"
  have e: "envconfig_Process ?d = (?c, None)"
    by (simp add: example_deps_def)
  have i: "InputEvent ?c \<noteq> []"
    by (simp add: example_config_def)
  have u: "json_Unmarshal ?d (InputEvent ?c) = Inr (Some example_event)"
    by (simp add: example_deps_def example_config_def)
  have p: "\<not> ProbeSink ?c"
    by (simp add: example_config_def)
  then have p': "ProbeSink ?c \<longrightarrow>
      PollImmediate (probe_attempts ?d)
        (probe_condition ?d ((new_generator ?c)\<lparr>baseEvent := Some 0\<rparr>)) 0 = None"
    by simp
  have s: "select_encoding (EventEncoding ?c) = Some Binary"
    by (simp add: example_config_def select_encoding_def)
  have t: "0 <s Period ?c * Second"
    by (simp add: example_config_def Second_def word_sless_alt)
  have m: "0 <s MaxMessages ?c" and k: "nat (sint (MaxMessages ?c)) = 2"
    by (simp_all add: example_config_def word_sless_alt)
  have n: "NewRequest_error ?d (InputMethod ?c) (Sink ?c) = None"
    by (simp add: example_deps_def)
  have w: "\<forall>ev req. \<exists>req'. WriteRequest ?d Binary ev req = Inr req'"
    by (simp add: example_deps_def)
  have v: "\<forall>k info. logs_Vent ?d k info = None"
    by (simp add: example_deps_def)
  have x: "\<forall>j. Suc j < nat (sint (MaxMessages ?c)) \<longrightarrow> select_wake ?d j = Tick"
    by (simp add: example_deps_def)
  have f: "nat (sint (MaxMessages ?c)) \<le> 2"
    using k by simp
  show ?thesis
    using e i u p s t m k bounded_run_sends_K_messages [OF e i u p' s t m n w v x f]
    by simp
qed

text \<open>
  The claim as stated fails on three runs of the sample configuration, which has
  max-messages 2: one whose context is closed during the first wait ends with no error after
  one Sent record; one whose outcome sink refuses the first record ends with an error and no
  record; and one with static headers in place of the event is still running after three
  iterations, with three Sent records.
\<close>

theorem bounded_run_counterexample:
  "MaxMessages (fst (envconfig_Process
      ((example_deps (example_config 1))\<lparr>select_wake := \<lambda>i. CtxDone\<rparr>))) = 2 \<and>
   status_of (Start (Suc (Suc 0))
      ((example_deps (example_config 1))\<lparr>select_wake := \<lambda>i. CtxDone\<rparr>)) = Done Cancelled \<and>
   map Kind (outcomes (Start (Suc (Suc 0))
      ((example_deps (example_config 1))\<lparr>select_wake := \<lambda>i. CtxDone\<rparr>))) =
     [EventSent, EventResponse] \<and>
   MaxMessages (fst (envconfig_Process
      ((example_deps (example_config 1))\<lparr>logs_Vent := \<lambda>k info. Some ''sink unavailable''\<rparr>))) = 2 \<and>
   status_of (Start (Suc (Suc 0))
      ((example_deps (example_config 1))\<lparr>logs_Vent := \<lambda>k info. Some ''sink unavailable''\<rparr>)) =
     Done (Failed (CannotForwardEventInfo ''sink unavailable'')) \<and>
   outcomes (Start (Suc (Suc 0))
      ((example_deps (example_config 1))\<lparr>logs_Vent := \<lambda>k info. Some ''sink unavailable''\<rparr>)) = [] \<and>
   MaxMessages (fst (envconfig_Process (example_deps
      ((example_config 1)\<lparr>InputEvent := [], InputHeaders := [(''X-Test'', ''1'')]\<rparr>)))) = 2 \<and>
   status_of (Start (Suc (Suc (Suc 0))) (example_deps
      ((example_config 1)\<lparr>InputEvent := [], InputHeaders := [(''X-Test'', ''1'')]\<rparr>))) = Running \<and>
   map Kind (outcomes (Start (Suc (Suc (Suc 0))) (example_deps
      ((example_config 1)\<lparr>InputEvent := [], InputHeaders := [(''X-Test'', ''1'')]\<rparr>)))) =
     [EventSent, EventResponse, EventSent, EventResponse, EventSent, EventResponse]"
  by (simp add: example_defs start_defs sender_defs Header_Add_def)

subsection \<open>The example of the spec\<close>

text \<open>
  Claim C5, as amended. The claim as stated gives the configuration sink http://X, base event
  with id "a" and type "t", addSequence on, incrementalId off, maxMessages 2, probing off,
  delay 0 and period 0, and says that the run produces exactly two Sent records, numbered 1
  and 2, whose events carry the extension sequence 1 and 2 and the identifier "a". With a
  period of at least one second in place of the period 0, and in a run where requests can be
  built and encoded, the outcome sink takes every record and the context is not closed during
  the first wait, this is what happens: the run returns through \<^verbatim>\<open>hasNext\<close> with exactly two
  Sent records, numbered 1 and 2, both with sent identifier "a"; an event carried by a Sent
  record has the identifier "a" and the record's number as its \<open>sequence\<close> extension; and
  every Sent record carries its event when every exchange gets a response.
\<close>

theorem example_run_two_messages:
  assumes "envconfig_Process d = (c, None)"
    and "AddSequence c" and "\<not> IncrementalId c" and "MaxMessages c = 2" and "\<not> ProbeSink c"
    and "0 <s Period c * Second"
    and "select_encoding (EventEncoding c) = Some enc"
    and "InputEvent c \<noteq> []" and "json_Unmarshal d (InputEvent c) = Inr (Some e)"
    and "ev_id e = ''a''"
    and "NewRequest_error d (InputMethod c) (Sink c) = None"
    and "\<forall>ev req. \<exists>req'. WriteRequest d enc ev req = Inr req'"
    and "\<forall>k info. logs_Vent d k info = None"
    and "select_wake d 0 = Tick"
    and "2 \<le> fuel"
  shows "status_of (Start fuel d) = Done MaxReached \<and>
         map Sequence (sent_records (outcomes (Start fuel d))) = [1, 2] \<and>
         map SentId (sent_records (outcomes (Start fuel d))) = [''a'', ''a''] \<and>
         (\<forall>s \<in> set (sent_records (outcomes (Start fuel d))). \<forall>ev. Event s = Some ev \<longrightarrow>
            ev_id ev = ''a'' \<and>
            ev_extensions ev ''sequence'' = Some (ExtInt (sint (Sequence s)))) \<and>
         ((\<forall>tracing k req. \<exists>res. client_Do d tracing k req = Inr res) \<longrightarrow>
            (\<forall>s \<in> set (sent_records (outcomes (Start fuel d))). Event s \<noteq> None))"
proof -
  let ?env = "(new_generator c)\<lparr>baseEvent := Some 0\<rparr>"
  let ?h = "\<lparr>cells = (\<lambda>_. zero_event)(0 := e), top = Suc 0\<rparr>"
  let ?run = "send_loop fuel d enc 0 ?env ?h []"
  have k: "nat (sint (MaxMessages c)) = 2" and pos: "0 <s MaxMessages c"
    using assms(4) by (simp_all add: word_sless_alt)
  have run: "Start fuel d = ?run"
    using assms(5) by (intro Start_bounded [OF assms(1,8,9) _ assms(7,6)]) simp
  have "status_of ?run = Done MaxReached \<and>
        length (sent_records (outcomes ?run)) =
          length (sent_records []) + (nat (sint (MaxMessages ?env)) - 0) \<and>
        length (response_records (outcomes ?run)) \<le>
          length (response_records []) + (nat (sint (MaxMessages ?env)) - 0) \<and>
        sequence (generator_of ?run) = MaxMessages ?env"
    using assms(11-15) pos k
    by (intro send_loop_counts [of ?env 0]) (simp_all add: less_Suc_eq)
  then have status: "status_of ?run = Done MaxReached"
    and len: "length (sent_records (outcomes ?run)) = 2"
    using k by simp_all
  have "sequenced (AddSequence ?env) (outcomes ?run)"
    by (intro send_loop_sequenced [of ?env 0]) simp_all
  then have numbers: "map Sequence (sent_records (outcomes ?run)) = [1, 2]"
    and ext: "\<forall>s \<in> set (sent_records (outcomes ?run)). \<forall>ev. Event s = Some ev \<longrightarrow>
                ev_extensions ev ''sequence'' = Some (ExtInt (sint (Sequence s)))"
    using len assms(2) by (simp_all add: sequenced_def upt_rec)
  have "identified (ev_id (cells ?h 0)) (outcomes ?run)"
    using assms(3) by (intro send_loop_identified [of ?env 0]) simp_all
  then have ids: "\<forall>s \<in> set (sent_records (outcomes ?run)).
      SentId s = ''a'' \<and> (\<forall>ev. Event s = Some ev \<longrightarrow> ev_id ev = ''a'')"
    using assms(10) by (simp add: identified_def)
  then have sent_ids: "map SentId (sent_records (outcomes ?run)) = [''a'', ''a'']"
    using len by (intro map_pair_const) simp_all
  have events: "\<forall>s \<in> set (sent_records (outcomes ?run)). Event s \<noteq> None"
    if "\<forall>tracing k req. \<exists>res. client_Do d tracing k req = Inr res"
    using send_loop_carried [of ?env 0 d "[]" fuel enc 0 ?h] that
    by (simp add: carried_def)
  show ?thesis
    unfolding run using status numbers sent_ids ext ids events by blast
qed

theorem example_run_two_messages_witness:
  "envconfig_Process (example_deps (example_config 1)) = (example_config 1, None) \<and>
   AddSequence (example_config 1) \<and> \<not> IncrementalId (example_config 1) \<and>
   MaxMessages (example_config 1) = 2 \<and> \<not> ProbeSink (example_config 1) \<and>
   0 <s Period (example_config 1) * Second \<and>
   json_Unmarshal (example_deps (example_config 1)) (InputEvent (example_config 1)) =
     Inr (Some example_event) \<and>
   ev_id example_event = ''a'' \<and>
   status_of (Start 2 (example_deps (example_config 1))) = Done MaxReached \<and>
   map Sequence (sent_records (outcomes (Start 2 (example_deps (example_config 1))))) = [1, 2] \<and>
   map SentId (sent_records (outcomes (Start 2 (example_deps (example_config 1))))) =
     [''a'', ''a''] \<and>
   map (\<lambda>s. map_option ev_id (Event s))
     (sent_records (outcomes (Start (Suc (Suc 0)) (example_deps (example_config 1))))) =
     [Some ''a'', Some ''a'']"
proof -
  let ?c = "example_config 1"
  let ?d = "example_deps ?c"
  have e: "envconfig_Process ?d = (?c, None)"
    by (simp add: example_deps_def)
  have a: "AddSequence ?c" and i: "\<not> IncrementalId ?c" and m: "MaxMessages ?c = 2"
    and p: "\<not> ProbeSink ?c"
    by (simp_all add: example_config_def)
  have t: "0 <s Period ?c * Second"
    by (simp add: example_config_def Second_def word_sless_alt)
  have s: "select_encoding (EventEncoding ?c) = Some Binary"
    by (simp add: example_config_def select_encoding_def)
  have j: "InputEvent ?c \<noteq> []"
    by (simp add: example_config_def)
  have u: "json_Unmarshal ?d (InputEvent ?c) = Inr (Some example_event)"
    by (simp add: example_deps_def example_config_def)
  have x: "ev_id example_event = ''a''"
    by (simp add: example_event_def)
  have n: "NewRequest_error ?d (InputMethod ?c) (Sink ?c) = None"
    by (simp add: example_deps_def)
  have w: "\<forall>ev req. \<exists>req'. WriteRequest ?d Binary ev req = Inr req'"
    by (simp add: example_deps_def)
  have v: "\<forall>k info. logs_Vent ?d k info = None"
    by (simp add: example_deps_def)
  have k: "select_wake ?d 0 = Tick"
    by (simp add: example_deps_def)
  have r: "map (\<lambda>s. map_option ev_id (Event s))
             (sent_records (outcomes (Start (Suc (Suc 0)) ?d))) = [Some ''a'', Some ''a'']"
    by (simp add: example_defs start_defs sender_defs)
  show ?thesis
    using e a i m p t u x r
      example_run_two_messages [OF e a i m p t s j u x n w v k order_refl]
    by simp
qed

text \<open>
  With the period 0 of the claim \<^verbatim>\<open>time.NewTicker\<close> panics before the first iteration, in the
  same world: the run produces no record.
\<close>

theorem example_run_period_zero_counterexample:
  "Period (fst (envconfig_Process (example_deps (example_config 0)))) = 0 \<and>
   status_of (Start 2 (example_deps (example_config 0))) = Done Panicked \<and>
   outcomes (Start 2 (example_deps (example_config 0))) = []"
  by (simp add: example_defs start_defs new_event_def Let_def)

end
